theory Spec2Isabelle
  imports Main "HOL-Library.Product_Lexorder"
begin

section \<open>Bytes, text and the exceptions of the program\<close>

text \<open>
  The program of \<^verbatim>\<open>n_largest.py\<close> moves data between two Python types: \<^verbatim>\<open>bytes\<close>
  (what the cache file holds and what \<^verbatim>\<open>readline\<close> returns) and \<^verbatim>\<open>str\<close> (what
  \<^verbatim>\<open>req.text\<close> is, and what \<^verbatim>\<open>decode\<close> returns). Bytes are modelled as
  \<^typ>\<open>string\<close> (a \<^typ>\<open>char\<close> is one byte), text as the list of its Unicode code points.
  Paths, URLs and header values are ASCII and written as \<^typ>\<open>string\<close>.
\<close>

type_synonym bytes = string
type_synonym str = "nat list"

text \<open>The exceptions that the modelled code can raise, one constructor for each raise site.\<close>

datatype error =
    UnicodeDecodeError            \<comment> \<open>\<^verbatim>\<open>next_line.decode()\<close> on bytes that are not UTF-8\<close>
  | UnicodeEncodeError            \<comment> \<open>\<^verbatim>\<open>content.encode()\<close> on a lone surrogate\<close>
  | ValueError_unpack nat         \<comment> \<open>\<^verbatim>\<open>for num_id, number in ...\<close> on a list of another length\<close>
  | ValueError_int str            \<comment> \<open>\<^verbatim>\<open>int(number)\<close> on a token that is no integer literal\<close>
  | HTTPError_no_range            \<comment> \<open>the \<^verbatim>\<open>HTTPError\<close> of line 158: the host ignored \<^verbatim>\<open>Range\<close>\<close>
  | HTTPError_status nat          \<comment> \<open>the \<^verbatim>\<open>HTTPError\<close> of \<^verbatim>\<open>raise_for_status\<close>\<close>
  | FileNotFoundError string      \<comment> \<open>\<^verbatim>\<open>gzip.open\<close> for writing below a missing directory\<close>
  | BrokenPipeError               \<comment> \<open>\<^verbatim>\<open>click.echo\<close> on a standard output that is closed\<close>

text \<open>A text literal: the code points of an ASCII string.\<close>

definition ascii :: "string \<Rightarrow> str" where
  "ascii s = map of_char s"

subsection \<open>\<^verbatim>\<open>bytes.decode()\<close> and \<^verbatim>\<open>str.encode()\<close>: strict UTF-8\<close>

definition cont_byte :: "char \<Rightarrow> nat \<Rightarrow> nat \<Rightarrow> bool" where
  "cont_byte c lo hi = (lo \<le> (of_char c :: nat) \<and> (of_char c :: nat) \<le> hi)"

definition cont_bits :: "char \<Rightarrow> nat" where
  "cont_bits c = of_char c - 0x80"

text \<open>
  The decoder accepts exactly the well-formed UTF-8 sequences (no overlong forms, no
  surrogates, nothing above U+10FFFF); \<open>None\<close> stands for \<^verbatim>\<open>UnicodeDecodeError\<close>.
\<close>

fun utf8_decode :: "bytes \<Rightarrow> str option" where
  "utf8_decode [] = Some []"
| "utf8_decode (c # cs) =
     (let b = (of_char c :: nat) in
      if b < 0x80 then map_option ((#) b) (utf8_decode cs)
      else if 0xC2 \<le> b \<and> b \<le> 0xDF then
        (case cs of
           c1 # r \<Rightarrow>
             if cont_byte c1 0x80 0xBF
             then map_option ((#) ((b - 0xC0) * 64 + cont_bits c1)) (utf8_decode r)
             else None
         | _ \<Rightarrow> None)
      else if 0xE0 \<le> b \<and> b \<le> 0xEF then
        (case cs of
           c1 # c2 # r \<Rightarrow>
             if cont_byte c1 (if b = 0xE0 then 0xA0 else 0x80) (if b = 0xED then 0x9F else 0xBF)
                \<and> cont_byte c2 0x80 0xBF
             then map_option ((#) ((b - 0xE0) * 4096 + cont_bits c1 * 64 + cont_bits c2))
                    (utf8_decode r)
             else None
         | _ \<Rightarrow> None)
      else if 0xF0 \<le> b \<and> b \<le> 0xF4 then
        (case cs of
           c1 # c2 # c3 # r \<Rightarrow>
             if cont_byte c1 (if b = 0xF0 then 0x90 else 0x80) (if b = 0xF4 then 0x8F else 0xBF)
                \<and> cont_byte c2 0x80 0xBF \<and> cont_byte c3 0x80 0xBF
             then map_option
                    ((#) ((b - 0xF0) * 262144 + cont_bits c1 * 4096 + cont_bits c2 * 64
                          + cont_bits c3))
                    (utf8_decode r)
             else None
         | _ \<Rightarrow> None)
      else None)"

definition decode :: "bytes \<Rightarrow> error + str" where
  "decode bs = (case utf8_decode bs of None \<Rightarrow> Inl UnicodeDecodeError | Some t \<Rightarrow> Inr t)"

text \<open>
  The encoder of one code point; a surrogate (U+D800 to U+DFFF) cannot be encoded, and a
  number above U+10FFFF is no code point of a Python \<^verbatim>\<open>str\<close> at all.
\<close>

definition utf8_char :: "nat \<Rightarrow> bytes option" where
  "utf8_char cp =
     (if cp < 0x80 then Some [char_of cp]
      else if cp < 0x800 then Some [char_of (0xC0 + cp div 64), char_of (0x80 + cp mod 64)]
      else if cp < 0x10000 then
        (if 0xD800 \<le> cp \<and> cp \<le> 0xDFFF then None
         else Some [char_of (0xE0 + cp div 4096), char_of (0x80 + cp div 64 mod 64),
                    char_of (0x80 + cp mod 64)])
      else if cp < 0x110000 then
        Some [char_of (0xF0 + cp div 262144), char_of (0x80 + cp div 4096 mod 64),
              char_of (0x80 + cp div 64 mod 64), char_of (0x80 + cp mod 64)]
      else None)"

fun utf8_encode :: "str \<Rightarrow> bytes option" where
  "utf8_encode [] = Some []"
| "utf8_encode (cp # t) =
     (case utf8_char cp of
        None \<Rightarrow> None
      | Some bs \<Rightarrow> map_option ((@) bs) (utf8_encode t))"

definition encode :: "str \<Rightarrow> error + bytes" where
  "encode t = (case utf8_encode t of None \<Rightarrow> Inl UnicodeEncodeError | Some bs \<Rightarrow> Inr bs)"

subsection \<open>\<^verbatim>\<open>str.strip()\<close>, \<^verbatim>\<open>re.split('\\s+', ...)\<close> and \<^verbatim>\<open>int(...)\<close>\<close>

text \<open>
  The white space of \<^verbatim>\<open>str.strip\<close> and of \<^verbatim>\<open>\s\<close> in a \<^verbatim>\<open>str\<close> pattern is the same
  set of code points, that of \<^verbatim>\<open>str.isspace\<close>.
\<close>

definition isspace :: "nat \<Rightarrow> bool" where
  "isspace c =
     ((0x09 \<le> c \<and> c \<le> 0x0D) \<or> (0x1C \<le> c \<and> c \<le> 0x20) \<or> c = 0x85 \<or> c = 0xA0
      \<or> c = 0x1680 \<or> (0x2000 \<le> c \<and> c \<le> 0x200A) \<or> c = 0x2028 \<or> c = 0x2029
      \<or> c = 0x202F \<or> c = 0x205F \<or> c = 0x3000)"

definition strip :: "str \<Rightarrow> str" where
  "strip s = rev (dropWhile isspace (rev (dropWhile isspace s)))"

text \<open>
  \<^verbatim>\<open>re.split('\\s+', s)\<close>: the pieces of \<open>s\<close> between the maximal runs of white space,
  empty pieces at both ends included; the first argument is the piece being read.
\<close>

function re_split_ws :: "str \<Rightarrow> str \<Rightarrow> str list" where
  "re_split_ws tok [] = [tok]"
| "re_split_ws tok (c # cs) =
     (if isspace c then tok # re_split_ws [] (dropWhile isspace cs)
      else re_split_ws (tok @ [c]) cs)"
  by pat_completeness auto
termination
  by (relation "measure (\<lambda>(tok, s). length s)")
     (auto simp: length_dropWhile_le le_imp_less_Suc)

definition re_split :: "str \<Rightarrow> str list" where
  "re_split s = re_split_ws [] s"

text \<open>
  \<^verbatim>\<open>int(number)\<close> on a \<^verbatim>\<open>str\<close>, in base ten, as CPython computes it. Two things that
  it reads belong to the interpreter and not to the program: the table of the decimal
  digits of Unicode (\<^verbatim>\<open>Py_UNICODE_TODECIMAL\<close>), which grows with the versions of Unicode,
  and the greatest number of digits that \<^verbatim>\<open>int\<close> accepts
  (\<^verbatim>\<open>sys.get_int_max_str_digits()\<close>: 4300 unless it was set otherwise, and 0 for no
  limit, which also stands for the versions that have none). They are the parameter
  \<open>py\<close>. The decimal digits of a script are ten consecutive code points in the order of
  their values, so the table is given by the code points of the digits zero of the
  scripts beyond ASCII.
\<close>

record interpreter =
  zero_digits :: "nat list"
  max_str_digits :: nat

text \<open>
  \<^verbatim>\<open>Py_UNICODE_TODECIMAL\<close> on a code point beyond ASCII: its value as a decimal digit, if
  it is one.
\<close>

definition todecimal :: "interpreter \<Rightarrow> nat \<Rightarrow> nat option" where
  "todecimal py ch =
     (case filter (\<lambda>z. 128 \<le> z \<and> z \<le> ch \<and> ch < z + 10) (zero_digits py) of
        [] \<Rightarrow> None
      | z # zs \<Rightarrow> Some (ch - z))"

text \<open>
  \<^verbatim>\<open>_PyUnicode_TransformDecimalAndSpaceToASCII\<close>: a \<^verbatim>\<open>str\<close> that is ASCII is taken as it
  is. In another one, a code point below 127 is kept, white space becomes a blank, a
  decimal digit becomes the ASCII digit of its value, and at the first code point that is
  none of these the result ends with a question mark.
\<close>

fun transform_loop :: "interpreter \<Rightarrow> str \<Rightarrow> str" where
  "transform_loop py [] = []"
| "transform_loop py (ch # u) =
     (if ch < 127 then ch # transform_loop py u
      else if isspace ch then 0x20 # transform_loop py u
      else (case todecimal py ch of
              None \<Rightarrow> [0x3F]
            | Some decimal \<Rightarrow> (0x30 + decimal) # transform_loop py u))"

definition TransformDecimalAndSpaceToASCII :: "interpreter \<Rightarrow> str \<Rightarrow> str" where
  "TransformDecimalAndSpaceToASCII py u =
     (if list_all (\<lambda>ch. ch < 128) u then u else transform_loop py u)"

text \<open>
  \<^verbatim>\<open>PyLong_FromString\<close> in base ten on the ASCII text: it skips the white space of
  \<^verbatim>\<open>Py_ISSPACE\<close>, reads a sign, refuses an underscore at the start, scans the digits and
  the underscores (refusing two underscores in a row, and one at the end), refuses more
  digits than the limit and an empty number, converts the digits, skips white space again,
  and refuses anything that is left. \<open>None\<close> stands for \<^verbatim>\<open>ValueError\<close>.
\<close>

definition Py_ISSPACE :: "nat \<Rightarrow> bool" where
  "Py_ISSPACE c = ((0x09 \<le> c \<and> c \<le> 0x0D) \<or> c = 0x20)"

definition isdigit :: "nat \<Rightarrow> bool" where
  "isdigit c = (0x30 \<le> c \<and> c \<le> 0x39)"

text \<open>
  The scan: from the last character read and the number of digits read so far to the
  last character, the number of digits, and the text at which the scan stopped.
\<close>

fun scan_digits :: "nat \<Rightarrow> nat \<Rightarrow> str \<Rightarrow> (nat \<times> nat \<times> str) option" where
  "scan_digits prev digits [] = Some (prev, digits, [])"
| "scan_digits prev digits (c # scan) =
     (if isdigit c then scan_digits c (Suc digits) scan
      else if c = 0x5F then (if prev = 0x5F then None else scan_digits c digits scan)
      else Some (prev, digits, c # scan))"

text \<open>The conversion: the value of the digits in base ten; it passes over the underscores.\<close>

fun digits_value :: "nat \<Rightarrow> str \<Rightarrow> nat" where
  "digits_value acc [] = acc"
| "digits_value acc (c # r) =
     (if c = 0x5F then digits_value acc r else digits_value (acc * 10 + (c - 0x30)) r)"

definition PyLong_FromString :: "nat \<Rightarrow> str \<Rightarrow> int option" where
  "PyLong_FromString max_digits buffer =
     (let p = dropWhile Py_ISSPACE buffer;
          negative = (take 1 p = [0x2D]);
          start = (if take 1 p = [0x2B] \<or> take 1 p = [0x2D] then tl p else p)
      in if take 1 start = [0x5F] then None
         else
           (case scan_digits 0 0 start of
              None \<Rightarrow> None
            | Some (prev, digits, rest) \<Rightarrow>
                if prev = 0x5F then None
                else if 640 < digits \<and> 0 < max_digits \<and> max_digits < digits then None
                else if length rest = length start then None
                else if dropWhile Py_ISSPACE rest \<noteq> [] then None
                else
                  (let z = int (digits_value 0 (take (length start - length rest) start))
                   in Some (if negative then - z else z))))"

definition py_int :: "interpreter \<Rightarrow> str \<Rightarrow> int option" where
  "py_int py u = PyLong_FromString (max_str_digits py) (TransformDecimalAndSpaceToASCII py u)"

section \<open>The record stream\<close>

text \<open>
  \<^verbatim>\<open>file.readline()\<close> on a binary file: the bytes up to and including the next line feed,
  or all that is left when there is none; the file is modelled by the bytes not read yet.
\<close>

definition readline :: "bytes \<Rightarrow> bytes \<times> bytes" where
  "readline file =
     (case dropWhile (\<lambda>c. c \<noteq> CHR 0x0A) file of
        [] \<Rightarrow> (file, [])
      | nl # rest \<Rightarrow> (takeWhile (\<lambda>c. c \<noteq> CHR 0x0A) file @ [nl], rest))"

text \<open>
  A generator is modelled by the list of what it yields, each item \<open>Inr\<close>; a generator that
  raises ends with the exception as its last item, \<open>Inl\<close>.
\<close>

function split_generator :: "bytes \<Rightarrow> (error + str list) list" where
  "split_generator file =
     (let (next_line, rest) = readline file in
      if next_line = [] then []
      else (case decode next_line of
              Inl e \<Rightarrow> [Inl e]
            | Inr t \<Rightarrow> Inr (re_split (strip t)) # split_generator rest))"
  by pat_completeness auto
termination
proof (relation "measure length")
  show "wf (measure length)" by simp
next
  fix bs :: bytes and x next_line rest
  assume r: "x = readline bs" "(next_line, rest) = x" and n: "next_line \<noteq> []"
  have le: "length (dropWhile (\<lambda>c. c \<noteq> CHR 0x0A) bs) \<le> length bs"
    by (rule length_dropWhile_le)
  have "length rest < length bs"
  proof (cases "dropWhile (\<lambda>c. c \<noteq> CHR 0x0A) bs")
    case Nil
    with r n show ?thesis by (auto simp: readline_def)
  next
    case (Cons nl rest')
    with r have "rest = rest'" by (simp add: readline_def)
    with le Cons show ?thesis by simp
  qed
  then show "(rest, bs) \<in> measure length" by simp
qed

declare split_generator.simps [simp del]

text \<open>
  The loop header \<^verbatim>\<open>for num_id, number in split_generator(file)\<close> unpacks each list of
  tokens into exactly two names, and raises \<^verbatim>\<open>ValueError\<close> on a list of any other length.
\<close>

definition id_number_tuple :: "interpreter \<Rightarrow> str list \<Rightarrow> error + (str \<times> int)" where
  "id_number_tuple py toks =
     (case toks of
        [num_id, number] \<Rightarrow>
          (case py_int py number of
             None \<Rightarrow> Inl (ValueError_int number)
           | Some v \<Rightarrow> Inr (num_id, v))
      | _ \<Rightarrow> Inl (ValueError_unpack (length toks)))"

fun id_number_tuples ::
  "interpreter \<Rightarrow> (error + str list) list \<Rightarrow> (error + (str \<times> int)) list" where
  "id_number_tuples py [] = []"
| "id_number_tuples py (Inl e # rest) = [Inl e]"
| "id_number_tuples py (Inr toks # rest) =
     (case id_number_tuple py toks of
        Inl e \<Rightarrow> [Inl e]
      | Inr r \<Rightarrow> Inr r # id_number_tuples py rest)"

definition id_number_tuple_generator ::
  "interpreter \<Rightarrow> bytes \<Rightarrow> (error + (str \<times> int)) list" where
  "id_number_tuple_generator py file = id_number_tuples py (split_generator file)"

text \<open>The record decoder applied to one line, as the two generators do it together.\<close>

definition line_record :: "interpreter \<Rightarrow> bytes \<Rightarrow> error + (str \<times> int)" where
  "line_record py next_line =
     (case decode next_line of
        Inl e \<Rightarrow> Inl e
      | Inr t \<Rightarrow> id_number_tuple py (re_split (strip t)))"

text \<open>Running a generator to its end: the items it yields, or the exception it raises.\<close>

fun exhaust :: "(error + 'a) list \<Rightarrow> error + 'a list" where
  "exhaust [] = Inr []"
| "exhaust (Inl e # rest) = Inl e"
| "exhaust (Inr x # rest) = (case exhaust rest of Inl e \<Rightarrow> Inl e | Inr xs \<Rightarrow> Inr (x # xs))"

section \<open>The top-N selection\<close>

text \<open>
  \<^verbatim>\<open>heapq.nlargest(n, iterable, key)\<close> of the standard library, on an iterable without a
  length. It decorates the first \<open>n\<close> items as triples \<open>(key, order, item)\<close> with the orders
  \<open>0, -1, ...\<close>, heapifies them, and replaces the least triple whenever a later item has a
  greater key than it, giving the new triple the next lower order. The orders are pairwise
  distinct, so a comparison of two triples is decided by \<open>(key, order)\<close>.

  The binary heap is represented by the list of its triples in ascending order: the
  algorithm reads the heap only through \<^verbatim>\<open>result[0]\<close>, its least triple, and sorts it at
  the end.
\<close>

type_synonym 'a entry = "int \<times> int \<times> 'a"

definition entry_key :: "'a entry \<Rightarrow> int \<times> int" where
  "entry_key x = (fst x, fst (snd x))"

definition heapify :: "'a entry list \<Rightarrow> 'a entry list" where
  "heapify h = sort_key entry_key h"

definition heapreplace :: "'a entry list \<Rightarrow> 'a entry \<Rightarrow> 'a entry list" where
  "heapreplace h item = insort_key entry_key item (tl h)"

fun decorate :: "('a \<Rightarrow> int) \<Rightarrow> int \<Rightarrow> 'a list \<Rightarrow> 'a entry list" where
  "decorate key i [] = []"
| "decorate key i (elem # it) = (key elem, i, elem) # decorate key (i - 1) it"

fun nlargest_loop :: "('a \<Rightarrow> int) \<Rightarrow> 'a list \<Rightarrow> 'a entry list \<Rightarrow> int \<Rightarrow> 'a entry list" where
  "nlargest_loop key [] result order = result"
| "nlargest_loop key (elem # it) result order =
     (let k = key elem; top = fst (hd result) in
      if top < k then nlargest_loop key it (heapreplace result (k, order, elem)) (order - 1)
      else nlargest_loop key it result order)"

text \<open>\<^verbatim>\<open>max(it, key=key)\<close> keeps the first of the greatest items.\<close>

fun py_max :: "('a \<Rightarrow> int) \<Rightarrow> 'a \<Rightarrow> 'a list \<Rightarrow> 'a" where
  "py_max key best [] = best"
| "py_max key best (elem # it) =
     (if key best < key elem then py_max key elem it else py_max key best it)"

definition nlargest :: "nat \<Rightarrow> ('a \<Rightarrow> int) \<Rightarrow> 'a list \<Rightarrow> 'a list" where
  "nlargest n key iterable =
     (if n = 1 then (case iterable of [] \<Rightarrow> [] | elem # it \<Rightarrow> [py_max key elem it])
      else
        (let result = decorate key 0 (take n iterable); it = drop n iterable in
         if result = [] then []
         else map (\<lambda>(k, order, elem). elem)
                (rev (sort_key entry_key
                   (nlargest_loop key it (heapify result) (- int n))))))"

text \<open>
  \<^verbatim>\<open>process_file\<close>. With \<open>n = 0\<close> (which the command line refuses) \<^verbatim>\<open>nlargest\<close> returns
  before it asks the generator for an item; with \<open>n \<ge> 1\<close> it runs the generator to its
  end before it returns, so that an exception of the decoder is the result.
\<close>

definition itemgetter_1 :: "str \<times> int \<Rightarrow> int" where
  "itemgetter_1 r = snd r"

definition process_file :: "interpreter \<Rightarrow> bytes \<Rightarrow> nat \<Rightarrow> error + (str \<times> int) list" where
  "process_file py file n =
     (if n = 0 then Inr []
      else (case exhaust (id_number_tuple_generator py file) of
              Inl e \<Rightarrow> Inl e
            | Inr records \<Rightarrow> Inr (nlargest n itemgetter_1 records)))"

section \<open>The remote file and the cache\<close>

text \<open>
  A response of \<^verbatim>\<open>requests.get\<close>. The program reads its \<^verbatim>\<open>status_code\<close> and its
  \<^verbatim>\<open>text\<close>, the body as \<^verbatim>\<open>requests\<close> decoded it with the character set that it took
  from the headers or guessed; \<open>req_content\<close> is the body as the host sent it.
\<close>

record response =
  status_code :: nat
  req_content :: bytes
  req_text :: str

type_synonym headers = "(string \<times> string) list"
type_synonym request = "string \<times> headers"

text \<open>
  The remote host answers a request by a function of all the requests sent so far, the
  last one being the request it answers: any deterministic host is such a function.
\<close>

type_synonym remote = "request list \<Rightarrow> response"

text \<open>
  What the program sees and changes: the directories and the files of the file system,
  the requests it has sent, the lines it has printed, and whether its standard output is
  closed (printing then raises). A gzip file is modelled by its decompressed content, so
  that compressing on write and decompressing on read are the identity; \<^verbatim>\<open>flush\<close>,
  \<^verbatim>\<open>fsync\<close> and \<^verbatim>\<open>close\<close> do not change it.
\<close>

record world =
  dirs :: "string set"
  files :: "string \<rightharpoonup> bytes"
  sent :: "request list"
  stdout :: "str list"
  stdout_closed :: bool

definition RANGE_HEADER :: string where
  "RANGE_HEADER = ''Range''"

text \<open>
  Modelled from the spec: \<^verbatim>\<open>constants.py\<close>, which defines \<^verbatim>\<open>SUCCESS_STATUS\<close> and
  \<^verbatim>\<open>FILE_START\<close>, is not among the sources. The spec calls the success status the
  ``206 Partial Content''-equivalent one, and has the offset of the first window start at
  the beginning of the file.
\<close>

definition SUCCESS_STATUS :: nat where
  "SUCCESS_STATUS = 206"

definition FILE_START :: int where
  "FILE_START = 0"

text \<open>\<^verbatim>\<open>requests.codes.range_not_satisfiable\<close> and \<^verbatim>\<open>requests.codes.ok\<close>.\<close>

definition range_not_satisfiable :: nat where
  "range_not_satisfiable = 416"

definition ok :: nat where
  "ok = 200"

text \<open>\<^verbatim>\<open>'{}'.format(i)\<close> for an integer: its decimal digits, after a minus sign if it is negative.\<close>

fun str_nat :: "nat \<Rightarrow> string" where
  "str_nat n = (if n < 10 then [char_of (48 + n)] else str_nat (n div 10) @ [char_of (48 + n mod 10)])"

declare str_nat.simps [simp del]

definition str_int :: "int \<Rightarrow> string" where
  "str_int i = (if i < 0 then CHR ''-'' # str_nat (nat (- i)) else str_nat (nat i))"

definition make_range_header :: "int \<Rightarrow> int \<Rightarrow> headers" where
  "make_range_header current_chunk chunk_size =
     [(RANGE_HEADER, ''bytes='' @ str_int current_chunk @ ''-'' @ str_int (current_chunk + chunk_size))]"

definition requests_get :: "remote \<Rightarrow> string \<Rightarrow> headers \<Rightarrow> world \<Rightarrow> response \<times> world" where
  "requests_get host url hdrs w =
     (let log = sent w @ [(url, hdrs)] in (host log, w\<lparr>sent := log\<rparr>))"

text \<open>\<^verbatim>\<open>req.raise_for_status()\<close> raises for the statuses from 400 to 599 and for no other.\<close>

definition raise_for_status :: "response \<Rightarrow> error + unit" where
  "raise_for_status req =
     (if 400 \<le> status_code req \<and> status_code req < 600
      then Inl (HTTPError_status (status_code req)) else Inr ())"

text \<open>The path \<^verbatim>\<open>cache_root / file_name\<close>.\<close>

definition path_join :: "string \<Rightarrow> string \<Rightarrow> string" where
  "path_join cache_root file_name = cache_root @ ''/'' @ file_name"

text \<open>
  \<^verbatim>\<open>gzip.open(cache_file, 'wb+')\<close> creates the file, or empties the one that is there; it
  raises when the directory is missing (nothing in \<^verbatim>\<open>get_remote_file\<close> creates it).
\<close>

definition gzip_open_wb :: "string \<Rightarrow> string \<Rightarrow> world \<Rightarrow> error + world" where
  "gzip_open_wb cache_root file_name w =
     (if cache_root \<in> dirs w
      then Inr (w\<lparr>files := (files w)(path_join cache_root file_name \<mapsto> [])\<rparr>)
      else Inl (FileNotFoundError (path_join cache_root file_name)))"

definition file_write :: "string \<Rightarrow> bytes \<Rightarrow> world \<Rightarrow> world" where
  "file_write path bs w =
     w\<lparr>files := (files w)(path \<mapsto> (case files w path of None \<Rightarrow> bs | Some old \<Rightarrow> old @ bs))\<rparr>"

text \<open>
  \<^verbatim>\<open>os.remove\<close> deletes a file and raises when there is none.
\<close>

definition remove :: "string \<Rightarrow> world \<Rightarrow> error + world" where
  "remove path w =
     (case files w path of
        None \<Rightarrow> Inl (FileNotFoundError path)
      | Some file \<Rightarrow> Inr (w\<lparr>files := (files w)(path := None)\<rparr>))"

text \<open>
  The body of the \<^verbatim>\<open>while\<close> loop of \<^verbatim>\<open>get_remote_file\<close> up to the next request (lines
  154 to 160): the new world, or the exception that leaves the loop.
\<close>

definition loop_body :: "string \<Rightarrow> response \<Rightarrow> world \<Rightarrow> error + world" where
  "loop_body cache_file req w =
     (if status_code req = SUCCESS_STATUS then
        (case encode (req_text req) of
           Inl e \<Rightarrow> Inl e
         | Inr bs \<Rightarrow> Inr (file_write cache_file bs w))
      else if status_code req = ok then Inl HTTPError_no_range
      else (case raise_for_status req of Inl e \<Rightarrow> Inl e | Inr u \<Rightarrow> Inr w))"

text \<open>
  The \<^verbatim>\<open>while\<close> loop (lines 153 to 163). It runs for as long as the host does not answer
  416, which may be for ever: the first argument bounds the number of times the loop
  condition is tested, and \<open>None\<close> says that the bound was too small.
\<close>

fun fetch_loop ::
  "nat \<Rightarrow> remote \<Rightarrow> string \<Rightarrow> int \<Rightarrow> string \<Rightarrow> int \<Rightarrow> response \<Rightarrow> world
   \<Rightarrow> ((error + unit) \<times> world) option" where
  "fetch_loop 0 host url chunk_size cache_file current_chunk req w = None"
| "fetch_loop (Suc fuel) host url chunk_size cache_file current_chunk req w =
     (if status_code req = range_not_satisfiable then Some (Inr (), w)
      else
        (case loop_body cache_file req w of
           Inl e \<Rightarrow> Some (Inl e, w)
         | Inr w1 \<Rightarrow>
             (let current_chunk' = current_chunk + (chunk_size + 1);
                  (req', w2) = requests_get host url (make_range_header current_chunk' chunk_size) w1
              in fetch_loop fuel host url chunk_size cache_file current_chunk' req' w2)))"

text \<open>
  \<^verbatim>\<open>get_remote_file\<close>. The digest \<^verbatim>\<open>hashlib.sha256(url.encode()).hexdigest()\<close> is a
  parameter, \<open>sha256_hexdigest\<close>.
\<close>

definition get_remote_file ::
  "nat \<Rightarrow> remote \<Rightarrow> (string \<Rightarrow> string) \<Rightarrow> string \<Rightarrow> int \<Rightarrow> string \<Rightarrow> bool \<Rightarrow> world
   \<Rightarrow> ((error + string) \<times> world) option" where
  "get_remote_file fuel host sha256_hexdigest url chunk_size cache_root should_refresh w =
     (let current_chunk = FILE_START;
          file_name = sha256_hexdigest url @ ''.gz'';
          cache_file = path_join cache_root file_name
      in if files w cache_file \<noteq> None \<and> \<not> should_refresh then Some (Inr file_name, w)
         else
           (case gzip_open_wb cache_root file_name w of
              Inl e \<Rightarrow> Some (Inl e, w)
            | Inr w1 \<Rightarrow>
                (let (req, w2) = requests_get host url (make_range_header current_chunk chunk_size) w1
                 in case fetch_loop fuel host url chunk_size cache_file current_chunk req w2 of
                      None \<Rightarrow> None
                    | Some (Inl e, w3) \<Rightarrow> Some (Inl e, w3)
                    | Some (Inr u, w3) \<Rightarrow> Some (Inr file_name, w3))))"

section \<open>The command \<^verbatim>\<open>get\<close>\<close>

text \<open>\<^verbatim>\<open>click.echo\<close> prints one line, and raises when the standard output is closed.\<close>

definition click_echo :: "str \<Rightarrow> world \<Rightarrow> error + world" where
  "click_echo line w =
     (if stdout_closed w then Inl BrokenPipeError else Inr (w\<lparr>stdout := stdout w @ [line]\<rparr>))"

fun print_n_largest :: "(str \<times> int) list \<Rightarrow> world \<Rightarrow> (error + unit) \<times> world" where
  "print_n_largest [] w = (Inr (), w)"
| "print_n_largest ((num_id, number) # rest) w =
     (case click_echo num_id w of
        Inl e \<Rightarrow> (Inl e, w)
      | Inr w1 \<Rightarrow> print_n_largest rest w1)"

text \<open>
  \<^verbatim>\<open>get\<close> from line 62 on. The lines before it read the cache directory from the
  configuration file; here it is the argument \<open>cache_root\<close>. The first argument is the
  interpreter that runs the program.
\<close>

definition get ::
  "interpreter \<Rightarrow> nat \<Rightarrow> remote \<Rightarrow> (string \<Rightarrow> string) \<Rightarrow> bool \<Rightarrow> bool \<Rightarrow> int \<Rightarrow> string \<Rightarrow> nat \<Rightarrow> string \<Rightarrow> world
   \<Rightarrow> ((error + unit) \<times> world) option" where
  "get py fuel host sha256_hexdigest no_cache refresh_cache chunk_size url n cache_root w =
     (case get_remote_file fuel host sha256_hexdigest url chunk_size cache_root refresh_cache w of
        None \<Rightarrow> None
      | Some (Inl e, w1) \<Rightarrow> Some (Inl e, w1)
      | Some (Inr file_name, w1) \<Rightarrow>
          (case files w1 (path_join cache_root file_name) of
             None \<Rightarrow> Some (Inl (FileNotFoundError (path_join cache_root file_name)), w1)
           | Some file \<Rightarrow>
               (case process_file py file n of
                  Inl e \<Rightarrow> Some (Inl e, w1)
                | Inr n_largest \<Rightarrow>
                    (case print_n_largest n_largest w1 of
                       (Inl e, w2) \<Rightarrow> Some (Inl e, w2)
                     | (Inr u, w2) \<Rightarrow>
                         if no_cache then
                           (case remove (path_join cache_root file_name) w2 of
                              Inl e \<Rightarrow> Some (Inl e, w2)
                            | Inr w3 \<Rightarrow> Some (Inr (), w3))
                         else Some (Inr (), w2)))))"

section \<open>Notions used in the proofs\<close>

text \<open>
  Inserting an item into a list sorted by \<open>g\<close> behind all items that are not greater: what
  a stable sort does with the item that comes last.
\<close>

fun ins_last :: "('a \<Rightarrow> 'k::linorder) \<Rightarrow> 'a \<Rightarrow> 'a list \<Rightarrow> 'a list" where
  "ins_last g x [] = [x]"
| "ins_last g x (y # ys) = (if g y \<le> g x then y # ins_last g x ys else x # y # ys)"

text \<open>
  The invariant of the heap in \<^verbatim>\<open>nlargest\<close>: the triples are in ascending order, each
  carries the key of its item, and every order in use is above the next one to be given.
\<close>

definition elem_of :: "'a entry \<Rightarrow> 'a" where
  "elem_of e = snd (snd e)"

definition heap_inv :: "('a \<Rightarrow> int) \<Rightarrow> 'a entry list \<Rightarrow> int \<Rightarrow> bool" where
  "heap_inv key h ord \<longleftrightarrow>
     sorted (map entry_key h) \<and> (\<forall>e\<in>set h. fst e = key (elem_of e) \<and> ord < fst (snd e))"

text \<open>
  The run of \<^verbatim>\<open>get_remote_file\<close> from a world \<open>w\<close>: the offset of the \<open>k\<close>-th window
  (counted from 0), the first \<open>m\<close> requests, the answer of the host to the \<open>k\<close>-th of them,
  whether the loop goes on to the next request after an answer, the bytes that an answer
  adds to the cache file, the bytes written before the \<open>k\<close>-th answer is looked at, and the
  world at that moment.
\<close>

definition offset :: "int \<Rightarrow> nat \<Rightarrow> int" where
  "offset chunk_size k = FILE_START + int k * (chunk_size + 1)"

definition range_requests :: "string \<Rightarrow> int \<Rightarrow> nat \<Rightarrow> request list" where
  "range_requests url chunk_size m =
     map (\<lambda>k. (url, make_range_header (offset chunk_size k) chunk_size)) [0..<m]"

definition answer :: "remote \<Rightarrow> world \<Rightarrow> string \<Rightarrow> int \<Rightarrow> nat \<Rightarrow> response" where
  "answer host w url chunk_size k = host (sent w @ range_requests url chunk_size (Suc k))"

definition goes_on :: "response \<Rightarrow> bool" where
  "goes_on req \<longleftrightarrow>
     status_code req \<noteq> range_not_satisfiable \<and>
     (if status_code req = SUCCESS_STATUS then \<not> isl (encode (req_text req))
      else status_code req \<noteq> ok \<and> \<not> (400 \<le> status_code req \<and> status_code req < 600))"

definition chunk_bytes :: "response \<Rightarrow> bytes" where
  "chunk_bytes req =
     (if status_code req = SUCCESS_STATUS
      then (case encode (req_text req) of Inl e \<Rightarrow> [] | Inr bs \<Rightarrow> bs) else [])"

definition written :: "remote \<Rightarrow> world \<Rightarrow> string \<Rightarrow> int \<Rightarrow> nat \<Rightarrow> bytes" where
  "written host w url chunk_size k =
     concat (map (\<lambda>i. chunk_bytes (answer host w url chunk_size i)) [0..<k])"

definition loop_state :: "remote \<Rightarrow> world \<Rightarrow> string \<Rightarrow> int \<Rightarrow> string \<Rightarrow> nat \<Rightarrow> world" where
  "loop_state host w url chunk_size cache_file k =
     w\<lparr>files := (files w)(cache_file \<mapsto> written host w url chunk_size k),
       sent := sent w @ range_requests url chunk_size (Suc k)\<rparr>"

text \<open>
  The record of a line in the words of the specification: the line is tokenized on runs
  of white space, and the second token is an integer. A run of white space is a text of
  white space only, a token is a text that is not empty and holds no white space.
\<close>

definition white :: "str \<Rightarrow> bool" where
  "white s = list_all isspace s"

definition token :: "str \<Rightarrow> bool" where
  "token s = (s \<noteq> [] \<and> list_all (\<lambda>c. \<not> isspace c) s)"

text \<open>
  An integer literal in base ten: an optional sign, then decimal digits in groups that
  are not empty, with one underscore between two groups, and no more digits than the
  interpreter allows. The digits may be those of any script; \<open>western\<close> replaces a decimal
  digit beyond ASCII by the ASCII digit of the same value. The value of the literal is
  that of its digits in base ten, negated after a minus sign.
\<close>

definition western :: "interpreter \<Rightarrow> nat \<Rightarrow> nat" where
  "western py c =
     (if c < 128 then c else (case todecimal py c of None \<Rightarrow> c | Some d \<Rightarrow> 0x30 + d))"

definition digit_groups :: "str \<Rightarrow> bool" where
  "digit_groups s \<longleftrightarrow>
     s \<noteq> [] \<and> list_all (\<lambda>c. isdigit c \<or> c = 0x5F) s \<and> hd s \<noteq> 0x5F \<and> last s \<noteq> 0x5F
     \<and> (0x5F, 0x5F) \<notin> set (zip s (tl s))"

definition decimal_value :: "str \<Rightarrow> nat" where
  "decimal_value s = foldl (\<lambda>a c. a * 10 + (c - 0x30)) 0 (filter isdigit s)"

definition within_limit :: "interpreter \<Rightarrow> str \<Rightarrow> bool" where
  "within_limit py s \<longleftrightarrow>
     \<not> (640 < length (filter isdigit s) \<and> 0 < max_str_digits py
        \<and> max_str_digits py < length (filter isdigit s))"

definition ascii_literal :: "interpreter \<Rightarrow> str \<Rightarrow> int option" where
  "ascii_literal py s =
     (let body = (if take 1 s = [0x2B] \<or> take 1 s = [0x2D] then tl s else s)
      in if digit_groups body \<and> within_limit py body
         then Some (if take 1 s = [0x2D] then - int (decimal_value body)
                    else int (decimal_value body))
         else None)"

definition int_literal :: "interpreter \<Rightarrow> str \<Rightarrow> int option" where
  "int_literal py tok = ascii_literal py (map (western py) tok)"

section \<open>Examples\<close>

text \<open>
  The inputs of the examples below: a response with an ASCII body, a host that answers
  the requests it receives with the responses of a list and then with 416 for ever, a
  stand-in for the digest, a world with an empty cache directory, a host that serves the
  four lines \<^verbatim>\<open>a 5\<close>, \<^verbatim>\<open>b 9\<close>, \<^verbatim>\<open>b2 9\<close>, \<^verbatim>\<open>c 1\<close> in two chunks, the world after
  they were fetched from it, a response whose body is the one byte E9 and whose text is
  the one character U+00E9, a world whose cache file holds the line \<^verbatim>\<open>a x\<close>, and the
  world after a fetch whose first request was answered with 416.
\<close>

definition reply :: "nat \<Rightarrow> bytes \<Rightarrow> response" where
  "reply status body = \<lparr>status_code = status, req_content = body, req_text = ascii body\<rparr>"

definition scripted_host :: "response list \<Rightarrow> remote" where
  "scripted_host answers log =
     (if log \<noteq> [] \<and> length log \<le> length answers then answers ! (length log - 1)
      else reply 416 [])"

definition example_digest :: "string \<Rightarrow> string" where
  "example_digest url = ''d-'' @ filter (\<lambda>c. c \<noteq> CHR ''/'' \<and> c \<noteq> CHR '':'') url"

definition example_world :: world where
  "example_world = \<lparr>dirs = {''/cache''}, files = Map.empty, sent = [], stdout = [],
      stdout_closed = False\<rparr>"

definition example_host :: remote where
  "example_host = scripted_host [reply 206 ''a 5\<newline>b 9\<newline>'', reply 206 ''b2 9\<newline>c 1\<newline>'']"

definition example_fetched :: world where
  "example_fetched =
     \<lparr>dirs = {''/cache''},
      files = [''/cache/d-httphf.gz'' \<mapsto> ''a 5\<newline>b 9\<newline>b2 9\<newline>c 1\<newline>''],
      sent = [(''http://h/f'', [(''Range'', ''bytes=0-1024'')]),
              (''http://h/f'', [(''Range'', ''bytes=1025-2049'')]),
              (''http://h/f'', [(''Range'', ''bytes=2050-3074'')])],
      stdout = [], stdout_closed = False\<rparr>"

definition latin1_reply :: response where
  "latin1_reply = \<lparr>status_code = 206, req_content = [CHR 0xE9], req_text = [0xE9]\<rparr>"

definition example_bad_cache :: world where
  "example_bad_cache =
     \<lparr>dirs = {''/cache''}, files = [''/cache/d-httphf.gz'' \<mapsto> ''a x\<newline>''], sent = [], stdout = [],
      stdout_closed = False\<rparr>"

definition example_empty_entry :: world where
  "example_empty_entry =
     \<lparr>dirs = {''/cache''}, files = [''/cache/d-httphf.gz'' \<mapsto> []],
      sent = [(''http://h/f'', [(''Range'', ''bytes=0-1024'')])], stdout = [],
      stdout_closed = False\<rparr>"

text \<open>
  The interpreter of the examples: the decimal digits of Unicode 14.0 and the limit of
  4300 digits, as in CPython 3.11.
\<close>

definition python_3_11 :: interpreter where
  "python_3_11 =
     \<lparr>zero_digits =
        [0x660, 0x6F0, 0x7C0, 0x966, 0x9E6, 0xA66, 0xAE6, 0xB66, 0xBE6, 0xC66, 0xCE6, 0xD66,
         0xDE6, 0xE50, 0xED0, 0xF20, 0x1040, 0x1090, 0x17E0, 0x1810, 0x1946, 0x19D0, 0x1A80,
         0x1A90, 0x1B50, 0x1BB0, 0x1C40, 0x1C50, 0xA620, 0xA8D0, 0xA900, 0xA9D0, 0xA9F0,
         0xAA50, 0xABF0, 0xFF10, 0x104A0, 0x10D30, 0x11066, 0x110F0, 0x11136, 0x111D0,
         0x112F0, 0x11450, 0x114D0, 0x11650, 0x116C0, 0x11730, 0x118E0, 0x11950, 0x11C50,
         0x11D50, 0x11DA0, 0x16A60, 0x16AC0, 0x16B50, 0x1D7CE, 0x1D7D8, 0x1D7E2, 0x1D7EC,
         0x1D7F6, 0x1E140, 0x1E2F0, 0x1E950, 0x1FBF0],
      max_str_digits = 4300\<rparr>"

section \<open>Lemmas about the selection\<close>

lemma insort_ins_last:
  "insort_key g a (ins_last g x ys) = ins_last g x (insort_key g a ys)"
  by (induction ys) auto

lemma sort_key_snoc: "sort_key g (xs @ [x]) = ins_last g x (sort_key g xs)"
  by (induction xs) (auto simp: insort_ins_last)

lemma take_ins_last: "take n (ins_last g x ys) = take n (ins_last g x (take n ys))"
proof (induction ys arbitrary: n)
  case Nil
  then show ?case by simp
next
  case (Cons y ys)
  show ?case
  proof (cases n)
    case 0
    then show ?thesis by simp
  next
    case (Suc m)
    with Cons [of m] show ?thesis by (cases m) auto
  qed
qed

lemma ins_last_all_le: "\<forall>y\<in>set ys. g y \<le> g x \<Longrightarrow> ins_last g x ys = ys @ [x]"
  by (induction ys) auto

lemma ins_last_snoc_greater: "g x < g a \<Longrightarrow> ins_last g x (ys @ [a]) = ins_last g x ys @ [a]"
  by (induction ys) auto

lemma ins_last_insort: "\<forall>y\<in>set ys. g y \<noteq> g x \<Longrightarrow> ins_last g x ys = insort_key g x ys"
  by (induction ys) auto

lemma map_ins_last:
  "\<forall>y\<in>set ys. g' y = g (f y) \<Longrightarrow> g' x = g (f x) \<Longrightarrow>
   map f (ins_last g' x ys) = ins_last g (f x) (map f ys)"
  by (induction ys) auto

lemma length_ins_last: "length (ins_last g x ys) = Suc (length ys)"
  by (induction ys) auto

lemma rev_insort_entry:
  "sorted (map entry_key h) \<Longrightarrow> \<forall>e\<in>set h. ord < fst (snd e) \<Longrightarrow>
   rev (insort_key entry_key (k, ord, x) h) = ins_last (\<lambda>e. - fst e) (k, ord, x) (rev h)"
proof (induction h)
  case Nil
  then show ?case by simp
next
  case (Cons a h)
  from Cons.prems have lt: "ord < fst (snd a)" by simp
  from Cons.prems have least: "\<forall>y\<in>set h. fst a \<le> fst y"
    by (auto simp: entry_key_def less_eq_prod_def)
  show ?case
  proof (cases "k \<le> fst a")
    case True
    with lt have "entry_key (k, ord, x) \<le> entry_key a"
      by (auto simp: entry_key_def less_eq_prod_def)
    then have "rev (insort_key entry_key (k, ord, x) (a # h)) = rev (a # h) @ [(k, ord, x)]"
      by simp
    moreover from True least have "\<forall>y\<in>set (rev (a # h)). - fst y \<le> - fst (k, ord, x)"
      by auto
    ultimately show ?thesis by (simp only: ins_last_all_le)
  next
    case False
    with lt have "\<not> entry_key (k, ord, x) \<le> entry_key a"
      by (auto simp: entry_key_def less_eq_prod_def)
    then have "rev (insort_key entry_key (k, ord, x) (a # h))
        = rev (insort_key entry_key (k, ord, x) h) @ [a]"
      by simp
    also have "\<dots> = ins_last (\<lambda>e. - fst e) (k, ord, x) (rev h) @ [a]"
      using Cons by simp
    also have "\<dots> = ins_last (\<lambda>e. - fst e) (k, ord, x) (rev h @ [a])"
      using False by (simp add: ins_last_snoc_greater)
    finally show ?thesis by simp
  qed
qed

lemma heap_inv_insort:
  assumes "heap_inv key h ord"
  shows "heap_inv key (insort_key entry_key (key x, ord, x) h) (ord - 1)"
  using assms by (auto simp: heap_inv_def sorted_insort_key set_insort_key elem_of_def)

lemma heap_inv_tl: "heap_inv key h ord \<Longrightarrow> heap_inv key (tl h) ord"
  by (cases h) (auto simp: heap_inv_def)

lemma map_rev_insort:
  assumes "heap_inv key h ord"
  shows "map elem_of (rev (insort_key entry_key (key x, ord, x) h))
         = ins_last (\<lambda>y. - key y) x (map elem_of (rev h))"
proof -
  from assms have "rev (insort_key entry_key (key x, ord, x) h)
      = ins_last (\<lambda>e. - fst e) (key x, ord, x) (rev h)"
    by (intro rev_insort_entry) (auto simp: heap_inv_def)
  moreover from assms have "map elem_of (ins_last (\<lambda>e. - fst e) (key x, ord, x) (rev h))
      = ins_last (\<lambda>y. - key y) (elem_of (key x, ord, x)) (map elem_of (rev h))"
    by (intro map_ins_last) (auto simp: heap_inv_def elem_of_def)
  ultimately show ?thesis by (simp add: elem_of_def)
qed

lemma nlargest_loop_correct:
  assumes "heap_inv key h ord" and "h \<noteq> []"
    and "map elem_of (rev h) = take (length h) (sort_key (\<lambda>y. - key y) seen)"
  shows "sorted (map entry_key (nlargest_loop key it h ord)) \<and>
         map elem_of (rev (nlargest_loop key it h ord))
           = take (length h) (sort_key (\<lambda>y. - key y) (seen @ it))"
  using assms
proof (induction it arbitrary: h ord seen)
  case Nil
  then show ?case by (simp add: heap_inv_def)
next
  case (Cons x it)
  from Cons.prems obtain a h' where h: "h = a # h'" by (cases h) auto
  let ?g = "\<lambda>y. - key y"
  let ?T = "map elem_of (rev h)"
  have snoc: "take (length h) (sort_key ?g (seen @ [x])) = take (length h) (ins_last ?g x ?T)"
    using Cons.prems(3) by (simp add: sort_key_snoc take_ins_last [of "length h" ?g x "sort_key ?g seen"])
  have lenT: "length ?T = length h" by simp
  have "sorted (map entry_key (a # h'))"
    using Cons.prems(1) h by (simp add: heap_inv_def)
  then have least: "\<forall>e\<in>set h. fst a \<le> fst e"
    using h by (auto simp: entry_key_def less_eq_prod_def)
  have keys: "\<forall>e\<in>set h. fst e = key (elem_of e)"
    using Cons.prems(1) by (simp add: heap_inv_def)
  have top: "\<forall>y\<in>set ?T. fst a \<le> key y"
  proof
    fix y assume "y \<in> set ?T"
    then obtain e where "e \<in> set h" and "y = elem_of e" by auto
    with least keys show "fst a \<le> key y" by metis
  qed
  have ka: "fst a = key (elem_of a)"
    using Cons.prems(1) h by (simp add: heap_inv_def)
  show ?case
  proof (cases "fst a < key x")
    case True
    let ?h2 = "heapreplace h (key x, ord, x)"
    have inv': "heap_inv key h' ord" using heap_inv_tl [OF Cons.prems(1)] h by simp
    have inv2: "heap_inv key ?h2 (ord - 1)"
      using heap_inv_insort [OF inv'] h by (simp add: heapreplace_def)
    have len2: "length ?h2 = length h" using h by (simp add: heapreplace_def)
    have ne2: "?h2 \<noteq> []" using len2 Cons.prems(2) by auto
    have "map elem_of (rev ?h2) = ins_last ?g x (map elem_of (rev h'))"
      using map_rev_insort [OF inv'] h by (simp add: heapreplace_def)
    moreover have "ins_last ?g x ?T = ins_last ?g x (map elem_of (rev h')) @ [elem_of a]"
      using True ka h by (simp add: ins_last_snoc_greater)
    ultimately have "take (length h) (ins_last ?g x ?T) = map elem_of (rev ?h2)"
      using h by (simp add: length_ins_last)
    with snoc len2 have abs2: "map elem_of (rev ?h2) = take (length ?h2) (sort_key ?g (seen @ [x]))"
      by simp
    from Cons.IH [OF inv2 ne2 abs2] True h len2 show ?thesis by simp
  next
    case False
    with top have "\<forall>y\<in>set ?T. ?g y \<le> ?g x" by auto
    then have "ins_last ?g x ?T = ?T @ [x]" by (rule ins_last_all_le)
    with snoc lenT have abs2: "?T = take (length h) (sort_key ?g (seen @ [x]))" by simp
    from Cons.IH [OF Cons.prems(1) Cons.prems(2) abs2] False h show ?thesis by simp
  qed
qed

lemma decorate_snoc:
  "decorate key i (es @ [x]) = decorate key i es @ [(key x, i - int (length es), x)]"
  by (induction es arbitrary: i) auto

lemma decorate_entries:
  "e \<in> set (decorate key i es) \<Longrightarrow>
   fst e = key (elem_of e) \<and> i - int (length es) < fst (snd e) \<and> fst (snd e) \<le> i"
  by (induction es arbitrary: i) (fastforce simp: elem_of_def)+

lemma decorate_Nil: "decorate key i es = [] \<longleftrightarrow> es = []"
  by (cases es) auto

lemma length_decorate: "length (decorate key i es) = length es"
  by (induction es arbitrary: i) auto

lemma heapify_decorate:
  "heap_inv key (heapify (decorate key i es)) (i - int (length es)) \<and>
   map elem_of (rev (heapify (decorate key i es))) = sort_key (\<lambda>y. - key y) es"
proof (induction es rule: rev_induct)
  case Nil
  then show ?case by (simp add: heapify_def heap_inv_def)
next
  case (snoc x es)
  let ?H = "heapify (decorate key i es)"
  let ?o = "i - int (length es)"
  let ?new = "(key x, ?o, x)"
  from snoc have inv: "heap_inv key ?H ?o" and abs: "map elem_of (rev ?H) = sort_key (\<lambda>y. - key y) es"
    by simp_all
  have "\<forall>y\<in>set ?H. entry_key y \<noteq> entry_key ?new"
    using inv by (auto simp: heap_inv_def entry_key_def)
  then have eq: "heapify (decorate key i (es @ [x])) = insort_key entry_key ?new ?H"
    by (simp add: heapify_def decorate_snoc sort_key_snoc ins_last_insort)
  have "heap_inv key (insort_key entry_key ?new ?H) (?o - 1)"
    by (rule heap_inv_insort [OF inv])
  moreover have "map elem_of (rev (insort_key entry_key ?new ?H)) = sort_key (\<lambda>y. - key y) (es @ [x])"
    using map_rev_insort [OF inv] abs by (simp add: sort_key_snoc)
  moreover have "?o - 1 = i - int (length (es @ [x]))" by simp
  ultimately show ?case using eq by (simp only:)
qed

lemma py_max_correct:
  "[best] = take 1 (sort_key (\<lambda>y. - key y) seen) \<Longrightarrow>
   [py_max key best it] = take 1 (sort_key (\<lambda>y. - key y) (seen @ it))"
proof (induction it arbitrary: best seen)
  case Nil
  then show ?case by simp
next
  case (Cons x it)
  let ?g = "\<lambda>y. - key y"
  have "take 1 (sort_key ?g (seen @ [x])) = take 1 (ins_last ?g x (sort_key ?g seen))"
    by (simp only: sort_key_snoc)
  also have "\<dots> = take 1 (ins_last ?g x (take 1 (sort_key ?g seen)))"
    by (rule take_ins_last)
  also have "\<dots> = take 1 (ins_last ?g x [best])"
    by (simp only: Cons.prems [symmetric])
  finally have "take 1 (sort_key ?g (seen @ [x])) = take 1 (ins_last ?g x [best])" .
  then have "[if key best < key x then x else best] = take 1 (sort_key ?g (seen @ [x]))"
    by auto
  from Cons.IH [OF this] show ?case by (simp split: if_splits)
qed

lemma nlargest_sorted: "nlargest n key xs = take n (sort_key (\<lambda>y. - key y) xs)"
proof (cases "n = 1")
  case True
  show ?thesis
  proof (cases xs)
    case Nil
    with True show ?thesis by (simp add: nlargest_def)
  next
    case (Cons x it)
    have "[x] = take 1 (sort_key (\<lambda>y. - key y) [x])" by simp
    from py_max_correct [OF this, of it] True Cons show ?thesis by (simp add: nlargest_def)
  qed
next
  case False
  let ?init = "take n xs"
  let ?h = "heapify (decorate key 0 ?init)"
  show ?thesis
  proof (cases "?init = []")
    case True
    then have "n = 0 \<or> xs = []" by (cases xs) auto
    with False show ?thesis by (auto simp: nlargest_def)
  next
    case ne: False
    have len: "length ?h = length ?init" by (simp add: heapify_def length_decorate)
    have hne: "?h \<noteq> []"
    proof
      assume "?h = []"
      then have "length ?h = 0" by (simp only: list.size)
      with len have "length ?init = 0" by (simp only:)
      with ne show False by (simp only: length_0_conv)
    qed
    have le: "0 - int (length ?init) \<ge> - int n" by simp
    have inv0: "heap_inv key ?h (0 - int (length ?init))"
      and abs0: "map elem_of (rev ?h) = sort_key (\<lambda>y. - key y) ?init"
      using heapify_decorate [of key 0 ?init] by simp_all
    have inv: "heap_inv key ?h (- int n)"
      using inv0 le by (fastforce simp: heap_inv_def)
    have abs: "map elem_of (rev ?h) = take (length ?h) (sort_key (\<lambda>y. - key y) ?init)"
      using abs0 len by simp
    from nlargest_loop_correct [OF inv hne abs, of "drop n xs"]
    have srt: "sorted (map entry_key (nlargest_loop key (drop n xs) ?h (- int n)))"
      and res: "map elem_of (rev (nlargest_loop key (drop n xs) ?h (- int n)))
                = take (length ?h) (sort_key (\<lambda>y. - key y) xs)"
      by simp_all
    have "take (length ?h) (sort_key (\<lambda>y. - key y) xs) = take n (sort_key (\<lambda>y. - key y) xs)"
      by (simp add: len min_def)
    moreover have "(\<lambda>(k, order, elem). elem) = (elem_of :: 'a entry \<Rightarrow> 'a)"
      by (simp add: fun_eq_iff elem_of_def)
    moreover have "decorate key 0 ?init \<noteq> []"
      using ne by (simp only: decorate_Nil not_False_eq_True)
    ultimately show ?thesis
      using False srt res by (simp add: nlargest_def sort_key_id_if_sorted)
  qed
qed

lemma split_generator_eof: "fst (readline file) = [] \<Longrightarrow> split_generator file = []"
  by (subst split_generator.simps) (simp add: split_beta)

lemma split_generator_step:
  "fst (readline file) \<noteq> [] \<Longrightarrow>
   split_generator file =
     (case decode (fst (readline file)) of
        Inl e \<Rightarrow> [Inl e]
      | Inr t \<Rightarrow> Inr (re_split (strip t)) # split_generator (snd (readline file)))"
  by (subst split_generator.simps) (simp add: split_beta)

lemma char_of_eq: "char_of (n::nat) = c \<longleftrightarrow> n mod 256 = of_char c"
  by (metis of_char_of char_of_char)

lemmas text_eval =
  decode_def encode_def utf8_char_def char_of_eq cont_byte_def cont_bits_def ascii_def
  strip_def isspace_def re_split_def py_int_def TransformDecimalAndSpaceToASCII_def
  PyLong_FromString_def Py_ISSPACE_def isdigit_def id_number_tuple_def

lemma filter_take_prefix:
  "filter P (take n xs) = take (length (filter P (take n xs))) (filter P xs)"
proof -
  have "filter P xs = filter P (take n xs) @ filter P (drop n xs)"
    by (metis append_take_drop_id filter_append)
  then show ?thesis by simp
qed

lemma example_records:
  "exhaust (id_number_tuple_generator py ''a 5\<newline>b 9\<newline>b2 9\<newline>c 1\<newline>'')
   = Inr [(ascii ''a'', 5), (ascii ''b'', 9), (ascii ''b2'', 9), (ascii ''c'', 1)]"
  by (simp add: id_number_tuple_generator_def split_generator_eof split_generator_step
        readline_def text_eval)

section \<open>Lemmas about the record decoder\<close>

lemma dropWhile_none: "list_all (\<lambda>c. \<not> P c) s \<Longrightarrow> dropWhile P s = s"
  by (cases s) simp_all

lemma dropWhile_all: "list_all P s \<Longrightarrow> dropWhile P s = []"
  by (induction s) simp_all

lemma dropWhile_all_append: "list_all P s \<Longrightarrow> dropWhile P (s @ r) = dropWhile P r"
  by (induction s) simp_all

lemma list_all_takeWhile: "list_all P (takeWhile P s)"
  by (induction s) simp_all

lemma take_drop_rev: "d = rev (dropWhile P (rev d)) @ rev (takeWhile P (rev d))"
proof -
  have "rev (takeWhile P (rev d) @ dropWhile P (rev d)) = rev (rev d)"
    by (simp only: takeWhile_dropWhile_id)
  then show ?thesis by (simp only: rev_append rev_rev_ident)
qed

lemma re_split_ws_not_Nil: "re_split_ws acc s \<noteq> []"
  by (induction acc s rule: re_split_ws.induct) simp_all

lemma re_split_ws_token:
  "list_all (\<lambda>c. \<not> isspace c) a \<Longrightarrow> re_split_ws acc (a @ s) = re_split_ws (acc @ a) s"
  by (induction a arbitrary: acc) simp_all

lemma re_split_ws_single:
  "re_split_ws acc s = [b] \<Longrightarrow> b = acc @ s \<and> list_all (\<lambda>c. \<not> isspace c) s"
  by (induction acc s rule: re_split_ws.induct)
     (auto simp: re_split_ws_not_Nil split: if_splits)

lemma re_split_ws_two:
  "re_split_ws acc s = [a, b] \<Longrightarrow>
   \<exists>a' sep. a = acc @ a' \<and> s = a' @ sep @ b \<and> list_all (\<lambda>c. \<not> isspace c) a' \<and> sep \<noteq> []
     \<and> white sep \<and> list_all (\<lambda>c. \<not> isspace c) b"
proof (induction acc s rule: re_split_ws.induct)
  case (1 tok)
  then show ?case by simp
next
  case (2 tok c cs)
  show ?case
  proof (cases "isspace c")
    case True
    with 2(3) have a: "a = tok" and r: "re_split_ws [] (dropWhile isspace cs) = [b]" by simp_all
    from re_split_ws_single [OF r] have b: "b = dropWhile isspace cs"
      and nb: "list_all (\<lambda>c. \<not> isspace c) b" by simp_all
    have "white (c # takeWhile isspace cs)"
      using True by (simp add: white_def list_all_takeWhile)
    then show ?thesis
      using a nb b
      by (intro exI [of _ "[]"] exI [of _ "c # takeWhile isspace cs"]) simp
  next
    case False
    with 2(3) have "re_split_ws (tok @ [c]) cs = [a, b]" by simp
    from 2(2) [OF False this] obtain a' sep where
      "a = (tok @ [c]) @ a'" "cs = a' @ sep @ b" "list_all (\<lambda>c. \<not> isspace c) a'" "sep \<noteq> []"
      "white sep" "list_all (\<lambda>c. \<not> isspace c) b" by (elim exE conjE)
    then show ?thesis
      using False by (intro exI [of _ "c # a'"] exI [of _ sep]) simp
  qed
qed

lemma strip_decomp: "\<exists>pre post. t = pre @ strip t @ post \<and> white pre \<and> white post"
proof -
  let ?d = "dropWhile isspace t"
  have 1: "t = takeWhile isspace t @ ?d" by simp
  have 2: "?d = strip t @ rev (takeWhile isspace (rev ?d))"
    unfolding strip_def by (rule take_drop_rev)
  have w1: "white (takeWhile isspace t)"
    by (simp add: white_def list_all_takeWhile)
  have w2: "white (rev (takeWhile isspace (rev ?d)))"
    by (simp add: white_def list_all_takeWhile)
  from 1 2 have "t = takeWhile isspace t @ strip t @ rev (takeWhile isspace (rev ?d))" by simp
  with w1 w2 show ?thesis by blast
qed

lemma strip_last: "strip t \<noteq> [] \<Longrightarrow> \<not> isspace (last (strip t))"
  by (simp add: strip_def last_rev hd_dropWhile)

lemma strip_hd: "strip t \<noteq> [] \<Longrightarrow> \<not> isspace (hd (strip t))"
proof -
  assume n: "strip t \<noteq> []"
  let ?d = "dropWhile isspace t"
  have 2: "?d = strip t @ rev (takeWhile isspace (rev ?d))"
    unfolding strip_def by (rule take_drop_rev)
  have "hd (strip t @ rev (takeWhile isspace (rev ?d))) = hd (strip t)"
    using n by simp
  with 2 have h: "hd ?d = hd (strip t)" by simp
  have "strip t @ rev (takeWhile isspace (rev ?d)) \<noteq> []" using n by simp
  with 2 have "?d \<noteq> []" by simp
  from hd_dropWhile [OF this] h show ?thesis by simp
qed

lemma strip_of:
  assumes "white pre" "white post" "s \<noteq> []" "\<not> isspace (hd s)" "\<not> isspace (last s)"
  shows "strip (pre @ s @ post) = s"
proof -
  have 1: "dropWhile isspace (pre @ s @ post) = s @ post"
    using assms(1,3,4) by (cases s) (simp_all add: white_def dropWhile_all_append)
  have "dropWhile isspace (rev post @ rev s) = rev s"
    using assms(2,3,5) by (cases s rule: rev_cases) (simp_all add: white_def dropWhile_all_append)
  with 1 show ?thesis by (simp add: strip_def)
qed

lemma two_tokens_iff:
  "re_split (strip t) = [a, b] \<longleftrightarrow>
   (\<exists>pre sep post. t = pre @ a @ sep @ b @ post \<and> white pre \<and> white sep \<and> sep \<noteq> []
      \<and> white post \<and> token a \<and> token b)"
proof
  assume r: "re_split (strip t) = [a, b]"
  then have "re_split_ws [] (strip t) = [a, b]" by (simp add: re_split_def)
  from re_split_ws_two [OF this] obtain a' sep where d: "a = [] @ a'" "strip t = a' @ sep @ b"
    "list_all (\<lambda>c. \<not> isspace c) a'" "sep \<noteq> []" "white sep" "list_all (\<lambda>c. \<not> isspace c) b"
    by (elim exE conjE)
  then have s: "strip t = a @ sep @ b" and ne: "strip t \<noteq> []"
    and na: "list_all (\<lambda>c. \<not> isspace c) a" by simp_all
  have a: "a \<noteq> []"
  proof
    assume "a = []"
    with s d(4) have "hd (strip t) = hd sep" by simp
    moreover from d(4,5) have "isspace (hd sep)" by (cases sep) (simp_all add: white_def)
    ultimately show False using strip_hd [OF ne] by simp
  qed
  have b: "b \<noteq> []"
  proof
    assume "b = []"
    with s d(4) have "last (strip t) = last sep" by simp
    moreover from d(4,5) have "isspace (last sep)"
      by (cases sep rule: rev_cases) (simp_all add: white_def)
    ultimately show False using strip_last [OF ne] by simp
  qed
  from strip_decomp [of t] obtain pre post where p: "t = pre @ strip t @ post" "white pre" "white post"
    by (elim exE conjE)
  with s have "t = pre @ a @ sep @ b @ post" by simp
  with p(2,3) d(4,5,6) na a b show
    "\<exists>pre sep post. t = pre @ a @ sep @ b @ post \<and> white pre \<and> white sep \<and> sep \<noteq> []
      \<and> white post \<and> token a \<and> token b"
    by (intro exI [of _ pre] exI [of _ sep] exI [of _ post]) (simp add: token_def)
next
  assume "\<exists>pre sep post. t = pre @ a @ sep @ b @ post \<and> white pre \<and> white sep \<and> sep \<noteq> []
      \<and> white post \<and> token a \<and> token b"
  then obtain pre sep post where t: "t = pre @ a @ sep @ b @ post" and w: "white pre" "white sep"
    "sep \<noteq> []" "white post" and ta: "token a" and tb: "token b" by (elim exE conjE)
  from ta have a: "a \<noteq> []" "list_all (\<lambda>c. \<not> isspace c) a" by (simp_all add: token_def)
  from tb have b: "b \<noteq> []" "list_all (\<lambda>c. \<not> isspace c) b" by (simp_all add: token_def)
  have h: "\<not> isspace (hd (a @ sep @ b))" using a by (cases a) simp_all
  have l: "\<not> isspace (last (a @ sep @ b))" using b by (cases b rule: rev_cases) simp_all
  have "strip (pre @ (a @ sep @ b) @ post) = a @ sep @ b"
    using w(1,4) a(1) h l by (intro strip_of) simp_all
  then have s: "strip t = a @ sep @ b" using t by simp
  obtain c sep' where sep: "sep = c # sep'" using w(3) by (cases sep) auto
  with w(2) have c: "isspace c" "list_all isspace sep'" by (simp_all add: white_def)
  have "dropWhile isspace (sep' @ b) = b"
    using c(2) b by (simp add: dropWhile_all_append dropWhile_none)
  then have "re_split_ws a (sep @ b) = a # re_split_ws [] b"
    using sep c(1) by simp
  moreover have "re_split_ws [] b = [b]"
    using re_split_ws_token [OF b(2), of "[]" "[]"] by simp
  ultimately have "re_split_ws [] (a @ sep @ b) = [a, b]"
    using re_split_ws_token [OF a(2), of "[]" "sep @ b"] by simp
  with s show "re_split (strip t) = [a, b]" by (simp add: re_split_def)
qed

lemma scan_all:
  "list_all (\<lambda>c. isdigit c \<or> c = 0x5F) s \<Longrightarrow>
   scan_digits prev n s =
     (if (0x5F, 0x5F) \<in> set (zip (prev # s) s) then None
      else Some (last (prev # s), n + length (filter isdigit s), []))"
  by (induction s arbitrary: prev n) (auto simp: isdigit_def)

lemma scan_split:
  "scan_digits prev n s = Some (p, d, rest) \<Longrightarrow>
   \<exists>body. s = body @ rest \<and> list_all (\<lambda>c. isdigit c \<or> c = 0x5F) body"
proof (induction s arbitrary: prev n)
  case Nil
  then show ?case by simp
next
  case (Cons c s)
  show ?case
  proof (cases "isdigit c \<or> c = 0x5F")
    case True
    with Cons.prems obtain prev' n' where "scan_digits prev' n' s = Some (p, d, rest)"
      by (auto split: if_splits)
    from Cons.IH [OF this] obtain body where "s = body @ rest"
      "list_all (\<lambda>c. isdigit c \<or> c = 0x5F) body" by (elim exE conjE)
    with True show ?thesis by (intro exI [of _ "c # body"]) simp
  next
    case False
    with Cons.prems have "rest = c # s" by simp
    then show ?thesis by (intro exI [of _ "[]"]) simp
  qed
qed

lemma scan_bad:
  assumes "scan_digits prev n s = Some (p, d, rest)"
    and "\<not> list_all (\<lambda>c. isdigit c \<or> c = 0x5F) s"
  shows "rest \<noteq> [] \<and> hd rest \<in> set s"
proof -
  from scan_split [OF assms(1)] obtain body where b: "s = body @ rest"
    "list_all (\<lambda>c. isdigit c \<or> c = 0x5F) body" by (elim exE conjE)
  with assms(2) have "rest \<noteq> []" by auto
  with b(1) show ?thesis by (cases rest) simp_all
qed

lemma digits_value_foldl:
  "list_all (\<lambda>c. isdigit c \<or> c = 0x5F) s \<Longrightarrow>
   digits_value acc s = foldl (\<lambda>a c. a * 10 + (c - 0x30)) acc (filter isdigit s)"
  by (induction s arbitrary: acc) (auto simp: isdigit_def)

lemma adjacent_from_start: "(0x5F, 0x5F) \<in> set (zip (0 # s) s) \<longleftrightarrow> ((0x5F::nat), (0x5F::nat)) \<in> set (zip s (tl s))"
  by (cases s) simp_all

lemma PyLong_FromString_token:
  assumes ns: "list_all (\<lambda>c. \<not> Py_ISSPACE c) s"
  shows "PyLong_FromString (max_str_digits py) s = ascii_literal py s"
proof -
  define body where "body = (if take 1 s = [0x2B] \<or> take 1 s = [0x2D] then tl s else s)"
  have d: "dropWhile Py_ISSPACE s = s" using ns by (rule dropWhile_none)
  have sub: "set body \<subseteq> set s" unfolding body_def by (cases s) auto
  have lhs: "PyLong_FromString (max_str_digits py) s =
     (if take 1 body = [0x5F] then None
      else (case scan_digits 0 0 body of
              None \<Rightarrow> None
            | Some (prev, digits, rest) \<Rightarrow>
                if prev = 0x5F then None
                else if 640 < digits \<and> 0 < max_str_digits py \<and> max_str_digits py < digits then None
                else if length rest = length body then None
                else if dropWhile Py_ISSPACE rest \<noteq> [] then None
                else Some (if take 1 s = [0x2D]
                           then - int (digits_value 0 (take (length body - length rest) body))
                           else int (digits_value 0 (take (length body - length rest) body)))))"
    unfolding PyLong_FromString_def d Let_def body_def [symmetric] by simp
  have rhs: "ascii_literal py s =
     (if digit_groups body \<and> within_limit py body
      then Some (if take 1 s = [0x2D] then - int (decimal_value body) else int (decimal_value body))
      else None)"
    unfolding ascii_literal_def Let_def body_def [symmetric] by simp
  show ?thesis
  proof (cases "list_all (\<lambda>c. isdigit c \<or> c = 0x5F) body")
    case True
    show ?thesis
    proof (cases body)
      case Nil
      then show ?thesis unfolding lhs rhs by (simp add: digit_groups_def)
    next
      case (Cons c r)
      have l: "last (0 # body) = last body" using Cons by simp
      have t: "take 1 body = [0x5F] \<longleftrightarrow> hd body = 0x5F" using Cons by simp
      have n: "body \<noteq> []" using Cons by simp
      show ?thesis
        unfolding lhs rhs scan_all [OF True] adjacent_from_start l t
        using True n
        by (simp add: digit_groups_def within_limit_def decimal_value_def digits_value_foldl)
    qed
  next
    case False
    then have r: "\<not> digit_groups body" by (simp add: digit_groups_def)
    show ?thesis
    proof (cases "scan_digits 0 0 body")
      case None
      then show ?thesis unfolding lhs rhs using r by simp
    next
      case (Some x)
      then obtain p dg rest where x: "scan_digits 0 0 body = Some (p, dg, rest)"
        by (cases x) auto
      from scan_bad [OF this False] have "rest \<noteq> []" "hd rest \<in> set s" using sub by auto
      with ns have "\<not> Py_ISSPACE (hd rest)" by (simp add: list_all_iff)
      with \<open>rest \<noteq> []\<close> have "dropWhile Py_ISSPACE rest \<noteq> []" by (cases rest) simp_all
      then show ?thesis unfolding lhs rhs x using r by simp
    qed
  qed
qed

lemma todecimal_Some: "todecimal py c = Some d \<Longrightarrow> 128 \<le> c \<and> d < 10"
proof -
  assume a: "todecimal py c = Some d"
  then obtain z zs where f: "filter (\<lambda>z. 128 \<le> z \<and> z \<le> c \<and> c < z + 10) (zero_digits py) = z # zs"
    and d: "d = c - z"
    by (auto simp: todecimal_def split: list.splits)
  have "z \<in> set (filter (\<lambda>z. 128 \<le> z \<and> z \<le> c \<and> c < z + 10) (zero_digits py))"
    unfolding f by simp
  then have "128 \<le> z \<and> z \<le> c \<and> c < z + 10" by simp
  with d show ?thesis by arith
qed

lemma Py_ISSPACE_isspace: "Py_ISSPACE c \<Longrightarrow> isspace c"
  by (auto simp: Py_ISSPACE_def isspace_def)

lemma western_ascii: "c < 128 \<Longrightarrow> western py c = c"
  by (simp add: western_def)

lemma western_not_space: "\<not> isspace c \<Longrightarrow> \<not> Py_ISSPACE (western py c)"
proof (cases "c < 128")
  case True
  assume "\<not> isspace c"
  with True show ?thesis using Py_ISSPACE_isspace [of c] by (auto simp: western_def)
next
  case False
  then show ?thesis
    by (auto simp: western_def Py_ISSPACE_def split: option.splits)
qed

lemma transform_loop_western:
  "list_all (\<lambda>c. \<not> isspace c) u \<Longrightarrow> list_all (\<lambda>c. c < 127 \<or> todecimal py c \<noteq> None) u \<Longrightarrow>
   transform_loop py u = map (western py) u"
proof (induction u)
  case Nil
  show ?case by simp
next
  case (Cons c u)
  then have IH: "transform_loop py u = map (western py) u" by simp
  show ?case
  proof (cases "c < 127")
    case True
    then show ?thesis using IH by (simp add: western_def)
  next
    case False
    with Cons.prems obtain d where d: "todecimal py c = Some d" by auto
    from todecimal_Some [OF this] have "128 \<le> c" by simp
    with d False Cons.prems(1) show ?thesis using IH by (simp add: western_def)
  qed
qed

lemma Transform_western:
  assumes "list_all (\<lambda>c. \<not> isspace c) u" "list_all (\<lambda>c. c < 127 \<or> todecimal py c \<noteq> None) u"
  shows "TransformDecimalAndSpaceToASCII py u = map (western py) u"
proof (cases "list_all (\<lambda>ch. ch < 128) u")
  case True
  then have "map (western py) u = u"
    by (intro map_idI) (simp add: list_all_iff western_def)
  with True show ?thesis by (simp add: TransformDecimalAndSpaceToASCII_def)
next
  case False
  then show ?thesis
    by (simp add: TransformDecimalAndSpaceToASCII_def transform_loop_western [OF assms])
qed

lemma transform_loop_not_space:
  "list_all (\<lambda>c. \<not> isspace c) u \<Longrightarrow> list_all (\<lambda>c. \<not> Py_ISSPACE c) (transform_loop py u)"
proof (induction u)
  case Nil
  show ?case by simp
next
  case (Cons c u)
  then have IH: "list_all (\<lambda>c. \<not> Py_ISSPACE c) (transform_loop py u)" by simp
  from Cons.prems have c: "\<not> isspace c" by simp
  then have "\<not> Py_ISSPACE c" using Py_ISSPACE_isspace by blast
  with c IH show ?case by (auto simp: Py_ISSPACE_def split: option.splits)
qed

lemma Transform_not_space:
  assumes "list_all (\<lambda>c. \<not> isspace c) u"
  shows "list_all (\<lambda>c. \<not> Py_ISSPACE c) (TransformDecimalAndSpaceToASCII py u)"
proof (cases "list_all (\<lambda>ch. ch < 128) u")
  case True
  have "list_all (\<lambda>c. \<not> Py_ISSPACE c) u"
    using assms Py_ISSPACE_isspace by (auto simp: list_all_iff)
  with True show ?thesis by (simp add: TransformDecimalAndSpaceToASCII_def)
next
  case False
  then show ?thesis
    by (simp add: TransformDecimalAndSpaceToASCII_def transform_loop_not_space [OF assms])
qed

lemma transform_loop_bad:
  "c \<in> set u \<Longrightarrow> \<not> c < 127 \<Longrightarrow> todecimal py c = None \<Longrightarrow> list_all (\<lambda>c. \<not> isspace c) u \<Longrightarrow>
   0x3F \<in> set (transform_loop py u)"
  by (induction u) (auto split: option.splits)

lemma Transform_bad:
  assumes "c \<in> set u" "\<not> c < 127" "todecimal py c = None" "list_all (\<lambda>c. \<not> isspace c) u"
  shows "0x3F \<in> set (TransformDecimalAndSpaceToASCII py u) \<or> 127 \<in> set (TransformDecimalAndSpaceToASCII py u)"
proof (cases "list_all (\<lambda>ch. ch < 128) u")
  case True
  with assms(1) have "c < 128" by (simp add: list_all_iff)
  with assms(2) have "c = 127" by simp
  with assms(1) True show ?thesis by (simp add: TransformDecimalAndSpaceToASCII_def)
next
  case False
  then show ?thesis
    using transform_loop_bad [OF assms] by (simp add: TransformDecimalAndSpaceToASCII_def)
qed

lemma ascii_literal_bad:
  assumes "c \<in> set s" "\<not> isdigit c" "c \<noteq> 0x5F" "c \<noteq> 0x2B" "c \<noteq> 0x2D"
  shows "ascii_literal py s = None"
proof -
  define body where "body = (if take 1 s = [0x2B] \<or> take 1 s = [0x2D] then tl s else s)"
  have "c \<in> set body" using assms(1,4,5) unfolding body_def by (cases s) auto
  with assms(2,3) have "\<not> list_all (\<lambda>c. isdigit c \<or> c = 0x5F) body" by (auto simp: list_all_iff)
  then have "\<not> digit_groups body" by (simp add: digit_groups_def)
  then show ?thesis unfolding ascii_literal_def Let_def body_def [symmetric] by simp
qed

lemma py_int_token:
  assumes ns: "list_all (\<lambda>c. \<not> isspace c) tok"
  shows "py_int py tok = int_literal py tok"
proof (cases "list_all (\<lambda>c. c < 127 \<or> todecimal py c \<noteq> None) tok")
  case True
  have "list_all (\<lambda>c. \<not> Py_ISSPACE c) (map (western py) tok)"
    using ns western_not_space by (auto simp: list_all_iff)
  from PyLong_FromString_token [OF this] show ?thesis
    by (simp add: py_int_def int_literal_def Transform_western [OF ns True])
next
  case False
  then obtain c where c: "c \<in> set tok" "\<not> c < 127" "todecimal py c = None"
    by (auto simp: list_all_iff)
  have "western py c = c" using c(2,3) by (simp add: western_def)
  with c(1) have "c \<in> set (map (western py) tok)" by force
  moreover have "\<not> isdigit c" "c \<noteq> 0x5F" "c \<noteq> 0x2B" "c \<noteq> 0x2D" using c(2) by (auto simp: isdigit_def)
  ultimately have r: "int_literal py tok = None"
    unfolding int_literal_def by (intro ascii_literal_bad)
  from Transform_bad [OF c ns] obtain x where
    x: "x \<in> set (TransformDecimalAndSpaceToASCII py tok)" "x = 0x3F \<or> x = 127" by blast
  then have "\<not> isdigit x" "x \<noteq> 0x5F" "x \<noteq> 0x2B" "x \<noteq> 0x2D" by (auto simp: isdigit_def)
  from ascii_literal_bad [OF x(1) this]
  have "ascii_literal py (TransformDecimalAndSpaceToASCII py tok) = None" .
  with PyLong_FromString_token [OF Transform_not_space [OF ns], of py py] r
  show ?thesis by (simp add: py_int_def)
qed

lemma utf8_decode_ascii:
  "list_all (\<lambda>c. (of_char c :: nat) < 0x80) bs \<Longrightarrow> utf8_decode bs = Some (map of_char bs)"
  by (induction bs) simp_all

lemma decode_ascii:
  "list_all (\<lambda>c. (of_char c :: nat) < 0x80) bs \<Longrightarrow> decode bs = Inr (ascii bs)"
  by (simp add: decode_def utf8_decode_ascii ascii_def)

lemma id_number_tuple_Inr:
  "id_number_tuple py toks = Inr (num_id, v) \<longleftrightarrow>
   (\<exists>number. toks = [num_id, number] \<and> py_int py number = Some v)"
  by (auto simp: id_number_tuple_def split: list.splits option.splits)

lemma line_record_two_tokens:
  assumes "decode next_line = Inr (pre @ num_id @ sep @ number @ post)"
    and "white pre" "token num_id" "white sep" "sep \<noteq> []" "token number" "white post"
  shows "line_record py next_line =
     (case int_literal py number of
        None \<Rightarrow> Inl (ValueError_int number)
      | Some v \<Rightarrow> Inr (num_id, v))"
proof -
  have "re_split (strip (pre @ num_id @ sep @ number @ post)) = [num_id, number]"
    unfolding two_tokens_iff using assms(2-7)
    by (intro exI [of _ pre] exI [of _ sep] exI [of _ post]) simp
  moreover have "py_int py number = int_literal py number"
    using assms(6) by (intro py_int_token) (simp add: token_def)
  ultimately show ?thesis
    using assms(1) by (simp add: line_record_def id_number_tuple_def)
qed

lemma line_record_Inr:
  "line_record py next_line = Inr (num_id, v) \<longleftrightarrow>
      (\<exists>t pre sep number post.
          decode next_line = Inr t \<and> t = pre @ num_id @ sep @ number @ post
          \<and> white pre \<and> token num_id \<and> white sep \<and> sep \<noteq> [] \<and> token number \<and> white post
          \<and> int_literal py number = Some v)"
proof
  assume a: "line_record py next_line = Inr (num_id, v)"
  then obtain t where t: "decode next_line = Inr t"
    and i: "id_number_tuple py (re_split (strip t)) = Inr (num_id, v)"
    by (auto simp: line_record_def split: sum.splits)
  from i obtain number where r: "re_split (strip t) = [num_id, number]"
    and p: "py_int py number = Some v"
    unfolding id_number_tuple_Inr by (elim exE conjE)
  from r obtain pre sep post where d: "t = pre @ num_id @ sep @ number @ post" "white pre"
    "white sep" "sep \<noteq> []" "white post" "token num_id" "token number"
    unfolding two_tokens_iff by (elim exE conjE)
  from d(7) have "py_int py number = int_literal py number"
    by (intro py_int_token) (simp add: token_def)
  with p have "int_literal py number = Some v" by simp
  with t d show "\<exists>t pre sep number post.
          decode next_line = Inr t \<and> t = pre @ num_id @ sep @ number @ post
          \<and> white pre \<and> token num_id \<and> white sep \<and> sep \<noteq> [] \<and> token number \<and> white post
          \<and> int_literal py number = Some v"
    by (intro exI [of _ t] exI [of _ pre] exI [of _ sep] exI [of _ number] exI [of _ post]) simp
next
  assume "\<exists>t pre sep number post.
          decode next_line = Inr t \<and> t = pre @ num_id @ sep @ number @ post
          \<and> white pre \<and> token num_id \<and> white sep \<and> sep \<noteq> [] \<and> token number \<and> white post
          \<and> int_literal py number = Some v"
  then obtain t pre sep number post where
    d: "decode next_line = Inr t" "t = pre @ num_id @ sep @ number @ post"
      "white pre" "token num_id" "white sep" "sep \<noteq> []" "token number" "white post"
    and l: "int_literal py number = Some v"
    by (elim exE conjE)
  from d(1,2) have "decode next_line = Inr (pre @ num_id @ sep @ number @ post)" by simp
  from line_record_two_tokens [OF this d(3-8), of py] l
  show "line_record py next_line = Inr (num_id, v)" by simp
qed

lemma digit_groups_digits: "s \<noteq> [] \<Longrightarrow> list_all isdigit s \<Longrightarrow> digit_groups s"
proof -
  assume n: "s \<noteq> []" and d: "list_all isdigit s"
  then have "isdigit (hd s)" "isdigit (last s)" by (simp_all add: list_all_iff)
  then have h: "hd s \<noteq> 0x5F" "last s \<noteq> 0x5F" by (auto simp: isdigit_def)
  have "(0x5F, 0x5F) \<notin> set (zip s (tl s))"
  proof
    assume "(0x5F, 0x5F) \<in> set (zip s (tl s))"
    then have "0x5F \<in> set s" by (rule set_zip_leftD)
    with d show False by (auto simp: list_all_iff isdigit_def)
  qed
  with n d h show ?thesis by (simp add: digit_groups_def list_all_iff)
qed

lemma int_literal_ones:
  "int_literal python_3_11 (replicate (Suc n) 0x31) =
     (if n < 4300 then Some (int (decimal_value (replicate (Suc n) 0x31))) else None)"
proof -
  have w: "map (western python_3_11) (replicate (Suc n) 0x31) = replicate (Suc n) 0x31"
    by (simp add: western_def)
  have d: "isdigit 0x31" by (simp add: isdigit_def)
  then have g: "digit_groups (replicate (Suc n) 0x31)"
    by (intro digit_groups_digits) (simp_all add: list_all_iff)
  have l: "within_limit python_3_11 (replicate (Suc n) 0x31) \<longleftrightarrow> n < 4300"
    using d by (auto simp: within_limit_def python_3_11_def)
  show ?thesis
    unfolding int_literal_def w ascii_literal_def Let_def using g l by simp
qed

lemma line_record_ones:
  "line_record python_3_11 (''a '' @ replicate (Suc n) CHR ''1'' @ ''\<newline>'') =
     (if n < 4300 then Inr (ascii ''a'', int (decimal_value (replicate (Suc n) 0x31)))
      else Inl (ValueError_int (replicate (Suc n) 0x31)))"
proof -
  have "decode (''a '' @ replicate (Suc n) CHR ''1'' @ ''\<newline>'')
      = Inr (ascii (''a '' @ replicate (Suc n) CHR ''1'' @ ''\<newline>''))"
    by (intro decode_ascii) (simp add: list_all_iff)
  then have "decode (''a '' @ replicate (Suc n) CHR ''1'' @ ''\<newline>'')
      = Inr ([] @ ascii ''a'' @ ascii '' '' @ replicate (Suc n) 0x31 @ ascii ''\<newline>'')"
    by (simp add: ascii_def)
  from line_record_two_tokens [OF this, of python_3_11]
  have "line_record python_3_11 (''a '' @ replicate (Suc n) CHR ''1'' @ ''\<newline>'') =
     (case int_literal python_3_11 (replicate (Suc n) 0x31) of
        None \<Rightarrow> Inl (ValueError_int (replicate (Suc n) 0x31))
      | Some v \<Rightarrow> Inr (ascii ''a'', v))"
    by (simp add: white_def token_def isspace_def ascii_def list_all_iff del: replicate_Suc)
  then show ?thesis
    unfolding int_literal_ones by simp
qed

section \<open>Lemmas about the fetch loop\<close>

lemma range_requests_Suc:
  "range_requests url cs (Suc m) =
   range_requests url cs m @ [(url, make_range_header (offset cs m) cs)]"
  by (simp add: range_requests_def)

lemma offset_Suc: "offset cs (Suc k) = offset cs k + (cs + 1)"
  by (simp add: offset_def algebra_simps)

lemma written_Suc:
  "written host w url cs (Suc k) = written host w url cs k @ chunk_bytes (answer host w url cs k)"
  by (simp add: written_def)

lemma loop_body_goes_on:
  "goes_on req \<Longrightarrow> files w cf = Some old \<Longrightarrow>
   loop_body cf req w = Inr (w\<lparr>files := (files w)(cf \<mapsto> old @ chunk_bytes req)\<rparr>)"
  by (cases "encode (req_text req)")
     (auto simp: goes_on_def loop_body_def chunk_bytes_def file_write_def raise_for_status_def
        map_upd_triv)

lemma fetch_loop_step:
  assumes "goes_on (answer host w url cs k)"
  shows "fetch_loop (Suc fuel) host url cs cf (offset cs k) (answer host w url cs k)
           (loop_state host w url cs cf k)
         = fetch_loop fuel host url cs cf (offset cs (Suc k)) (answer host w url cs (Suc k))
             (loop_state host w url cs cf (Suc k))"
proof -
  let ?w = "loop_state host w url cs cf k"
  have f: "files ?w cf = Some (written host w url cs k)" by (simp add: loop_state_def)
  have ne: "status_code (answer host w url cs k) \<noteq> range_not_satisfiable"
    using assms by (simp add: goes_on_def)
  have body: "loop_body cf (answer host w url cs k) ?w
      = Inr (?w\<lparr>files := (files ?w)(cf \<mapsto> written host w url cs (Suc k))\<rparr>)"
    using loop_body_goes_on [OF assms f] by (simp add: written_Suc)
  have get: "requests_get host url (make_range_header (offset cs (Suc k)) cs)
        (?w\<lparr>files := (files ?w)(cf \<mapsto> written host w url cs (Suc k))\<rparr>)
      = (answer host w url cs (Suc k), loop_state host w url cs cf (Suc k))"
    by (simp add: requests_get_def loop_state_def answer_def range_requests_Suc Let_def)
  show ?thesis
    using ne by (simp add: body offset_Suc [symmetric] get)
qed

lemma fetch_loop_run:
  "(\<forall>i<m. goes_on (answer host w url cs (k + i))) \<Longrightarrow>
   fetch_loop (m + fuel) host url cs cf (offset cs k) (answer host w url cs k)
     (loop_state host w url cs cf k)
   = fetch_loop fuel host url cs cf (offset cs (k + m)) (answer host w url cs (k + m))
       (loop_state host w url cs cf (k + m))"
proof (induction m arbitrary: k)
  case 0
  then show ?case by simp
next
  case (Suc m)
  from Suc.prems have g: "goes_on (answer host w url cs k)" by (metis add.right_neutral zero_less_Suc)
  from Suc.prems have "\<forall>i<m. goes_on (answer host w url cs (Suc k + i))"
    by (metis Suc_less_eq add_Suc_shift)
  from Suc.IH [OF this] fetch_loop_step [OF g, of "m + fuel" cf] show ?case by simp
qed

lemma fetch_loop_stop:
  "status_code req = range_not_satisfiable \<Longrightarrow>
   fetch_loop (Suc fuel) host url cs cf cur req w' = Some (Inr (), w')"
  by simp

lemma fetch_loop_abort:
  "status_code req \<noteq> range_not_satisfiable \<Longrightarrow> loop_body cf req w' = Inl e \<Longrightarrow>
   fetch_loop (Suc fuel) host url cs cf cur req w' = Some (Inl e, w')"
  by simp

lemma get_remote_file_fetch:
  assumes "files w (path_join root (H url @ ''.gz'')) = None \<or> refresh" and "root \<in> dirs w"
  shows "get_remote_file fuel host H url cs root refresh w =
     (case fetch_loop fuel host url cs (path_join root (H url @ ''.gz'')) (offset cs 0)
             (answer host w url cs 0) (loop_state host w url cs (path_join root (H url @ ''.gz'')) 0) of
        None \<Rightarrow> None
      | Some (Inl e, w3) \<Rightarrow> Some (Inl e, w3)
      | Some (Inr u, w3) \<Rightarrow> Some (Inr (H url @ ''.gz''), w3))"
proof -
  have "requests_get host url (make_range_header FILE_START cs)
          (w\<lparr>files := (files w)(path_join root (H url @ ''.gz'') \<mapsto> [])\<rparr>)
        = (answer host w url cs 0, loop_state host w url cs (path_join root (H url @ ''.gz'')) 0)"
    by (simp add: requests_get_def Let_def answer_def loop_state_def range_requests_def
        written_def offset_def)
  with assms show ?thesis
    by (auto simp: get_remote_file_def gzip_open_wb_def Let_def offset_def)
qed

lemma loop_body_frame:
  "loop_body cf req w = Inr w1 \<Longrightarrow>
   dirs w1 = dirs w \<and> stdout w1 = stdout w \<and> stdout_closed w1 = stdout_closed w
   \<and> sent w1 = sent w
   \<and> (\<forall>p. p \<noteq> cf \<longrightarrow> files w1 p = files w p)"
  by (auto simp: loop_body_def file_write_def raise_for_status_def split: if_splits sum.splits)

lemma loop_body_keeps:
  "loop_body cf req w = Inr w1 \<Longrightarrow> files w cf \<noteq> None \<Longrightarrow> files w1 cf \<noteq> None"
  by (auto simp: loop_body_def file_write_def raise_for_status_def split: if_splits sum.splits)

lemma fetch_loop_frame:
  "fetch_loop fuel host url cs cf cur req w = Some (r, w') \<Longrightarrow>
   dirs w' = dirs w \<and> stdout w' = stdout w \<and> stdout_closed w' = stdout_closed w
   \<and> (\<forall>p. p \<noteq> cf \<longrightarrow> files w' p = files w p)
   \<and> (files w cf \<noteq> None \<longrightarrow> files w' cf \<noteq> None)"
proof (induction fuel arbitrary: cur req w)
  case 0
  then show ?case by simp
next
  case (Suc fuel)
  show ?case
  proof (cases "status_code req = range_not_satisfiable")
    case True
    with Suc.prems show ?thesis by simp
  next
    case False
    show ?thesis
    proof (cases "loop_body cf req w")
      case (Inl e)
      with False Suc.prems show ?thesis by simp
    next
      case (Inr w1)
      let ?cur = "cur + (cs + 1)"
      let ?w2 = "w1\<lparr>sent := sent w1 @ [(url, make_range_header ?cur cs)]\<rparr>"
      let ?req = "host (sent w1 @ [(url, make_range_header ?cur cs)])"
      from False Inr Suc.prems
      have "fetch_loop fuel host url cs cf ?cur ?req ?w2 = Some (r, w')"
        by (simp add: requests_get_def Let_def)
      from Suc.IH [OF this] loop_body_frame [OF Inr] loop_body_keeps [OF Inr]
      show ?thesis by simp
    qed
  qed
qed

lemma fetch_loop_requests:
  "fetch_loop fuel host url cs cf cur req w = Some (r, w') \<Longrightarrow>
   \<exists>m. sent w' = sent w @ map (\<lambda>i. (url, make_range_header (cur + int (Suc i) * (cs + 1)) cs)) [0..<m]"
proof (induction fuel arbitrary: cur req w)
  case 0
  then show ?case by simp
next
  case (Suc fuel)
  show ?case
  proof (cases "status_code req = range_not_satisfiable")
    case True
    with Suc.prems have "sent w' = sent w @ map (\<lambda>i. (url, make_range_header (cur + int (Suc i) * (cs + 1)) cs)) [0..<0]"
      by simp
    then show ?thesis by blast
  next
    case False
    show ?thesis
    proof (cases "loop_body cf req w")
      case (Inl e)
      with False Suc.prems have "sent w' = sent w @ map (\<lambda>i. (url, make_range_header (cur + int (Suc i) * (cs + 1)) cs)) [0..<0]"
        by simp
      then show ?thesis by blast
    next
      case (Inr w1)
      let ?cur = "cur + (cs + 1)"
      let ?w2 = "w1\<lparr>sent := sent w1 @ [(url, make_range_header ?cur cs)]\<rparr>"
      let ?req = "host (sent w1 @ [(url, make_range_header ?cur cs)])"
      from False Inr Suc.prems
      have "fetch_loop fuel host url cs cf ?cur ?req ?w2 = Some (r, w')"
        by (simp add: requests_get_def Let_def)
      from Suc.IH [OF this] obtain m where
        m: "sent w' = sent ?w2 @ map (\<lambda>i. (url, make_range_header (?cur + int (Suc i) * (cs + 1)) cs)) [0..<m]"
        by blast
      have s: "sent w1 = sent w" using loop_body_frame [OF Inr] by simp
      have "map (\<lambda>i. (url, make_range_header (cur + int (Suc i) * (cs + 1)) cs)) [0..<Suc m]
          = (url, make_range_header ?cur cs)
            # map (\<lambda>i. (url, make_range_header (?cur + int (Suc i) * (cs + 1)) cs)) [0..<m]"
        by (simp add: map_upt_Suc algebra_simps del: upt_Suc)
      with m s have "sent w' = sent w @ map (\<lambda>i. (url, make_range_header (cur + int (Suc i) * (cs + 1)) cs)) [0..<Suc m]"
        by simp
      then show ?thesis by blast
    qed
  qed
qed

lemma get_remote_file_frame:
  assumes "get_remote_file fuel host H url cs root refresh w = Some (r, w')"
  shows "dirs w' = dirs w \<and> stdout w' = stdout w \<and> stdout_closed w' = stdout_closed w
     \<and> (\<forall>p. p \<noteq> path_join root (H url @ ''.gz'') \<longrightarrow> files w' p = files w p)
     \<and> (\<forall>name. r = Inr name \<longrightarrow> name = H url @ ''.gz'' \<and> files w' (path_join root name) \<noteq> None)"
proof (cases "files w (path_join root (H url @ ''.gz'')) \<noteq> None \<and> \<not> refresh")
  case True
  with assms show ?thesis by (auto simp: get_remote_file_def Let_def)
next
  case False
  show ?thesis
  proof (cases "root \<in> dirs w")
    case nodir: False
    with False assms show ?thesis by (auto simp: get_remote_file_def Let_def gzip_open_wb_def)
  next
    case True
    let ?cf = "path_join root (H url @ ''.gz'')"
    let ?w0 = "loop_state host w url cs ?cf 0"
    from False have miss: "files w ?cf = None \<or> refresh" by auto
    from assms get_remote_file_fetch [where H = H and url = url and root = root and w = w
        and refresh = refresh and fuel = fuel and host = host and cs = cs, OF miss True]
    obtain r0 where fl: "fetch_loop fuel host url cs ?cf (offset cs 0) (answer host w url cs 0) ?w0 = Some (r0, w')"
      and r: "r = (case r0 of Inl e \<Rightarrow> Inl e | Inr u \<Rightarrow> Inr (H url @ ''.gz''))"
      by (auto split: option.splits sum.splits prod.splits)
    have "files ?w0 ?cf \<noteq> None" by (simp add: loop_state_def)
    with fetch_loop_frame [OF fl] r show ?thesis
      by (auto simp: loop_state_def split: sum.splits)
  qed
qed

lemma get_remote_file_requests:
  assumes "get_remote_file fuel host H url cs root refresh w = Some (r, w')"
  shows "\<exists>m. sent w' = sent w @ range_requests url cs m"
proof (cases "files w (path_join root (H url @ ''.gz'')) \<noteq> None \<and> \<not> refresh")
  case True
  with assms have "sent w' = sent w @ range_requests url cs 0"
    by (auto simp: get_remote_file_def Let_def range_requests_def)
  then show ?thesis by blast
next
  case False
  show ?thesis
  proof (cases "root \<in> dirs w")
    case nodir: False
    with False assms have "sent w' = sent w @ range_requests url cs 0"
      by (auto simp: get_remote_file_def Let_def gzip_open_wb_def range_requests_def)
    then show ?thesis by blast
  next
    case True
    let ?cf = "path_join root (H url @ ''.gz'')"
    let ?w0 = "loop_state host w url cs ?cf 0"
    from False have miss: "files w ?cf = None \<or> refresh" by auto
    from assms get_remote_file_fetch [where H = H and url = url and root = root and w = w
        and refresh = refresh and fuel = fuel and host = host and cs = cs, OF miss True]
    obtain r0 where fl: "fetch_loop fuel host url cs ?cf (offset cs 0) (answer host w url cs 0) ?w0 = Some (r0, w')"
      by (auto split: option.splits sum.splits prod.splits)
    from fetch_loop_requests [OF fl] obtain m where
      m: "sent w' = sent ?w0 @ map (\<lambda>i. (url, make_range_header (offset cs 0 + int (Suc i) * (cs + 1)) cs)) [0..<m]"
      by blast
    have "range_requests url cs (Suc m)
        = (url, make_range_header (offset cs 0) cs)
          # map (\<lambda>i. (url, make_range_header (offset cs 0 + int (Suc i) * (cs + 1)) cs)) [0..<m]"
      by (simp add: range_requests_def map_upt_Suc offset_def algebra_simps del: upt_Suc)
    with m have "sent w' = sent w @ range_requests url cs (Suc m)"
      by (simp add: loop_state_def range_requests_def)
    then show ?thesis by blast
  qed
qed

lemma length_range_requests: "length (range_requests url cs m) = m"
  by (simp add: range_requests_def)

lemma fetch_stops:
  assumes miss: "files w (path_join root (H url @ ''.gz'')) = None \<or> refresh"
    and dir: "root \<in> dirs w"
    and go: "\<forall>i<m. goes_on (answer host w url cs i)"
    and stop: "status_code (answer host w url cs m) = range_not_satisfiable"
  shows "get_remote_file (Suc (m + fuel)) host H url cs root refresh w
         = Some (Inr (H url @ ''.gz''), loop_state host w url cs (path_join root (H url @ ''.gz'')) m)"
proof -
  let ?cf = "path_join root (H url @ ''.gz'')"
  from go have "\<forall>i<m. goes_on (answer host w url cs (0 + i))" by simp
  from fetch_loop_run [OF this, of "Suc fuel" ?cf]
  have "fetch_loop (Suc (m + fuel)) host url cs ?cf (offset cs 0) (answer host w url cs 0)
          (loop_state host w url cs ?cf 0)
        = fetch_loop (Suc fuel) host url cs ?cf (offset cs m) (answer host w url cs m)
          (loop_state host w url cs ?cf m)"
    by simp
  also have "\<dots> = Some (Inr (), loop_state host w url cs ?cf m)"
    using stop by simp
  finally show ?thesis
    using get_remote_file_fetch [where H = H and url = url and root = root and w = w
        and refresh = refresh and fuel = "Suc (m + fuel)" and host = host and cs = cs, OF miss dir]
    by simp
qed

lemma fetch_aborts:
  assumes miss: "files w (path_join root (H url @ ''.gz'')) = None \<or> refresh"
    and dir: "root \<in> dirs w"
    and go: "\<forall>i<m. goes_on (answer host w url cs i)"
    and nostop: "status_code (answer host w url cs m) \<noteq> range_not_satisfiable"
    and abort: "loop_body (path_join root (H url @ ''.gz'')) (answer host w url cs m)
                  (loop_state host w url cs (path_join root (H url @ ''.gz'')) m) = Inl e"
  shows "get_remote_file (Suc (m + fuel)) host H url cs root refresh w
         = Some (Inl e, loop_state host w url cs (path_join root (H url @ ''.gz'')) m)"
proof -
  let ?cf = "path_join root (H url @ ''.gz'')"
  from go have "\<forall>i<m. goes_on (answer host w url cs (0 + i))" by simp
  from fetch_loop_run [OF this, of "Suc fuel" ?cf]
  have "fetch_loop (Suc (m + fuel)) host url cs ?cf (offset cs 0) (answer host w url cs 0)
          (loop_state host w url cs ?cf 0)
        = fetch_loop (Suc fuel) host url cs ?cf (offset cs m) (answer host w url cs m)
          (loop_state host w url cs ?cf m)"
    by simp
  also have "\<dots> = Some (Inl e, loop_state host w url cs ?cf m)"
    using nostop abort by simp
  finally show ?thesis
    using get_remote_file_fetch [where H = H and url = url and root = root and w = w
        and refresh = refresh and fuel = "Suc (m + fuel)" and host = host and cs = cs, OF miss dir]
    by simp
qed

lemma loop_body_ok:
  "status_code req = ok \<Longrightarrow> loop_body cf req w = Inl HTTPError_no_range"
  by (simp add: loop_body_def ok_def SUCCESS_STATUS_def)

lemma loop_body_error_status:
  "400 \<le> status_code req \<Longrightarrow> status_code req < 600 \<Longrightarrow>
   loop_body cf req w = Inl (HTTPError_status (status_code req))"
  by (auto simp: loop_body_def ok_def SUCCESS_STATUS_def raise_for_status_def)

lemma files_loop_state:
  "files (loop_state host w url cs cf m) cf = Some (written host w url cs m)"
  by (simp add: loop_state_def)

lemma sent_loop_state:
  "sent (loop_state host w url cs cf m) = sent w @ range_requests url cs (Suc m)"
  by (simp add: loop_state_def)

lemma utf8_encode_ascii:
  "\<forall>c\<in>set bs. (of_char c :: nat) < 128 \<Longrightarrow> utf8_encode (ascii bs) = Some bs"
  by (induction bs) (auto simp: ascii_def utf8_char_def)

lemma encode_ascii:
  "\<forall>c\<in>set bs. (of_char c :: nat) < 128 \<Longrightarrow> encode (ascii bs) = Inr bs"
  by (simp add: encode_def utf8_encode_ascii)

lemma print_n_largest_open:
  "\<not> stdout_closed w \<Longrightarrow>
   print_n_largest records w = (Inr (), w\<lparr>stdout := stdout w @ map fst records\<rparr>)"
  by (induction records arbitrary: w) (auto simp: click_echo_def)

lemma print_n_largest_closed:
  "stdout_closed w \<Longrightarrow> records \<noteq> [] \<Longrightarrow>
   print_n_largest records w = (Inl BrokenPipeError, w)"
  by (cases records) (auto simp: click_echo_def)

lemma print_n_largest_stdout:
  "print_n_largest records w =
   (if stdout_closed w \<and> records \<noteq> [] then (Inl BrokenPipeError, w)
    else (Inr (), w\<lparr>stdout := stdout w @ map fst records\<rparr>))"
  by (cases "stdout_closed w"; cases "records = []")
     (simp_all add: print_n_largest_open print_n_largest_closed)

lemma process_file_empty: "process_file py [] n = Inr []"
  by (simp add: process_file_def id_number_tuple_generator_def split_generator_eof readline_def
      nlargest_sorted)

lemma get_remote_file_hit:
  "files w (path_join root (H url @ ''.gz'')) = Some file \<Longrightarrow>
   get_remote_file fuel host H url cs root False w = Some (Inr (H url @ ''.gz''), w)"
  by (simp add: get_remote_file_def Let_def)

lemma get_after_fetch:
  assumes "get_remote_file fuel host H url cs root refresh w = Some (Inr name, w1)"
    and "files w1 (path_join root name) = Some file"
  shows "get py fuel host H no_cache refresh cs url n root w =
     (case process_file py file n of
        Inl e \<Rightarrow> Some (Inl e, w1)
      | Inr records \<Rightarrow>
          if stdout_closed w1 \<and> records \<noteq> [] then Some (Inl BrokenPipeError, w1)
          else
            Some (Inr (),
              if no_cache
              then w1\<lparr>stdout := stdout w1 @ map fst records,
                      files := (files w1)(path_join root name := None)\<rparr>
              else w1\<lparr>stdout := stdout w1 @ map fst records\<rparr>))"
  using assms
  by (auto simp: get_def print_n_largest_stdout remove_def Let_def split: sum.splits)

lemma range_requests_explicit:
  "range_requests url cs m =
   map (\<lambda>k. (url, [(''Range'', ''bytes='' @ str_int (int k * (cs + 1)) @ ''-''
                       @ str_int (int k * (cs + 1) + cs))])) [0..<m]"
  by (simp add: range_requests_def make_range_header_def offset_def FILE_START_def RANGE_HEADER_def)

lemma chunk_bytes_encoded:
  "status_code req = SUCCESS_STATUS \<Longrightarrow> encode (req_text req) = Inr bs \<Longrightarrow>
   goes_on req \<and> chunk_bytes req = bs"
  by (simp add: goes_on_def chunk_bytes_def SUCCESS_STATUS_def range_not_satisfiable_def)


lemma answer_scripted:
  "answer (scripted_host answers) example_world url cs k =
   (if k < length answers then answers ! k else reply 416 [])"
  by (simp add: answer_def scripted_host_def example_world_def length_range_requests
      range_requests_Suc)

lemma example_path: "path_join ''/cache'' (example_digest ''http://h/f'' @ ''.gz'') = ''/cache/d-httphf.gz''"
  by (simp add: path_join_def example_digest_def)

lemma goes_on_reply:
  "\<forall>c\<in>set body. (of_char c :: nat) < 128 \<Longrightarrow> goes_on (reply 206 body)"
  by (simp add: goes_on_def reply_def encode_ascii SUCCESS_STATUS_def range_not_satisfiable_def)

lemma chunk_bytes_reply:
  "\<forall>c\<in>set body. (of_char c :: nat) < 128 \<Longrightarrow> chunk_bytes (reply 206 body) = body"
  by (simp add: chunk_bytes_def reply_def encode_ascii SUCCESS_STATUS_def)

lemma status_reply: "status_code (reply status body) = status"
  by (simp add: reply_def)

lemma str_int_examples:
  "str_int 0 = ''0''" "str_int 1024 = ''1024''" "str_int 1025 = ''1025''"
  "str_int 2049 = ''2049''" "str_int 2050 = ''2050''" "str_int 3074 = ''3074''"
  by (simp_all add: str_int_def str_nat.simps char_of_eq)

lemma example_requests:
  "range_requests ''http://h/f'' 1024 (Suc (Suc (Suc 0))) =
     [(''http://h/f'', [(''Range'', ''bytes=0-1024'')]),
      (''http://h/f'', [(''Range'', ''bytes=1025-2049'')]),
      (''http://h/f'', [(''Range'', ''bytes=2050-3074'')])]"
  by (simp add: range_requests_explicit str_int_examples)

lemma example_fetch:
  "get_remote_file (Suc (Suc (Suc 0))) example_host example_digest ''http://h/f'' 1024 ''/cache'' False
     example_world = Some (Inr ''d-httphf.gz'', example_fetched)"
proof -
  have miss: "files example_world (path_join ''/cache'' (example_digest ''http://h/f'' @ ''.gz'')) = None \<or> False"
    by (simp add: example_world_def)
  have dir: "''/cache'' \<in> dirs example_world" by (simp add: example_world_def)
  have go: "\<forall>i<Suc (Suc 0). goes_on (answer example_host example_world ''http://h/f'' 1024 i)"
    by (simp add: All_less_Suc example_host_def answer_scripted goes_on_reply)
  have stop: "status_code (answer example_host example_world ''http://h/f'' 1024 (Suc (Suc 0)))
      = range_not_satisfiable"
    by (simp add: example_host_def answer_scripted status_reply range_not_satisfiable_def)
  have "written example_host example_world ''http://h/f'' 1024 (Suc (Suc 0))
      = ''a 5\<newline>b 9\<newline>b2 9\<newline>c 1\<newline>''"
    by (simp add: written_def example_host_def answer_scripted chunk_bytes_reply)
  then have w: "loop_state example_host example_world ''http://h/f'' 1024 ''/cache/d-httphf.gz'' (Suc (Suc 0))
      = example_fetched"
    by (simp add: loop_state_def example_requests example_fetched_def example_world_def)
  from fetch_stops [where H = example_digest and url = "''http://h/f''" and fuel = 0,
      OF miss dir go stop] w
  show ?thesis by (simp add: example_path example_digest_def path_join_def)
qed

lemma example_top2:
  "process_file py ''a 5\<newline>b 9\<newline>b2 9\<newline>c 1\<newline>'' 2 = Inr [(ascii ''b'', 9), (ascii ''b2'', 9)]"
proof -
  have "(\<lambda>y. - itemgetter_1 y) = (\<lambda>r. - snd r)"
    by (simp add: fun_eq_iff itemgetter_1_def)
  then show ?thesis
    by (simp add: process_file_def example_records nlargest_sorted ascii_def)
qed

lemma example_bad_line:
  "process_file py ''a x\<newline>'' 1 = Inl (ValueError_int (ascii ''x''))"
  by (simp add: process_file_def id_number_tuple_generator_def split_generator_eof
      split_generator_step readline_def text_eval)

lemma files_example_fetched:
  "files example_fetched ''/cache/d-httphf.gz'' = Some ''a 5\<newline>b 9\<newline>b2 9\<newline>c 1\<newline>''"
  by (simp add: example_fetched_def)

lemma example_miss:
  "files example_world (path_join ''/cache'' (example_digest ''http://h/f'' @ ''.gz'')) = None \<or> False"
  by (simp add: example_world_def)

lemma example_dir: "''/cache'' \<in> dirs example_world"
  by (simp add: example_world_def)

lemma sent_example_world: "sent example_world = []"
  by (simp add: example_world_def)

lemma example_name: "example_digest ''http://h/f'' @ ''.gz'' = ''d-httphf.gz''"
  by (simp add: example_digest_def)

lemma example_cache_file: "path_join ''/cache'' ''d-httphf.gz'' = ''/cache/d-httphf.gz''"
  by (simp add: path_join_def)

lemma example_go:
  "\<forall>i<Suc (Suc 0). goes_on (answer example_host example_world ''http://h/f'' 1024 i)"
  by (simp add: All_less_Suc example_host_def answer_scripted goes_on_reply)

lemma example_stop:
  "status_code (answer example_host example_world ''http://h/f'' 1024 (Suc (Suc 0)))
   = range_not_satisfiable"
  by (simp add: example_host_def answer_scripted status_reply range_not_satisfiable_def)

lemma example_chunks:
  "chunk_bytes (answer example_host example_world ''http://h/f'' 1024 0) = ''a 5\<newline>b 9\<newline>''"
  "chunk_bytes (answer example_host example_world ''http://h/f'' 1024 (Suc 0)) = ''b2 9\<newline>c 1\<newline>''"
  by (simp_all add: example_host_def answer_scripted chunk_bytes_reply)

lemmas example_eval =
  example_name example_cache_file sent_example_world example_chunks example_requests
  numeral_2_eq_2 numeral_3_eq_3

lemma example_requests2:
  "range_requests ''http://h/f'' 1024 (Suc (Suc 0)) =
     [(''http://h/f'', [(''Range'', ''bytes=0-1024'')]),
      (''http://h/f'', [(''Range'', ''bytes=1025-2049'')])]"
  "range_requests ''http://h/f'' 1024 (Suc 0) = [(''http://h/f'', [(''Range'', ''bytes=0-1024'')])]"
  by (simp_all add: range_requests_explicit str_int_examples)

lemma answer_scripted_0:
  "answer (scripted_host (r # rs)) example_world url cs 0 = r"
  "answer (scripted_host (r # r' # rs)) example_world url cs (Suc 0) = r'"
  "answer (scripted_host []) example_world url cs k = reply 416 []"
  "answer (scripted_host [r]) example_world url cs (Suc k) = reply 416 []"
  by (simp_all add: answer_scripted)

lemma latin1_reply_chunk:
  "goes_on latin1_reply" "chunk_bytes latin1_reply = [CHR 0xC3, CHR 0xA9]"
  "req_content latin1_reply = [CHR 0xE9]"
  by (simp_all add: latin1_reply_def goes_on_def chunk_bytes_def SUCCESS_STATUS_def
      range_not_satisfiable_def encode_def utf8_char_def char_of_eq)

lemma example_fetch_closed:
  "get_remote_file (Suc (Suc (Suc 0))) example_host example_digest ''http://h/f'' 1024 ''/cache'' False
     (example_world\<lparr>stdout_closed := True\<rparr>)
   = Some (Inr ''d-httphf.gz'', example_fetched\<lparr>stdout_closed := True\<rparr>)"
proof -
  let ?w = "example_world\<lparr>stdout_closed := True\<rparr>"
  have a: "answer host ?w url cs k = answer host example_world url cs k" for host url cs k
    by (simp add: answer_def)
  have miss: "files ?w (path_join ''/cache'' (example_digest ''http://h/f'' @ ''.gz'')) = None \<or> False"
    by (simp add: example_world_def)
  have dir: "''/cache'' \<in> dirs ?w" by (simp add: example_world_def)
  have go: "\<forall>i<Suc (Suc 0). goes_on (answer example_host ?w ''http://h/f'' 1024 i)"
    using example_go by (simp only: a)
  have stop: "status_code (answer example_host ?w ''http://h/f'' 1024 (Suc (Suc 0)))
      = range_not_satisfiable"
    using example_stop by (simp only: a)
  have "written example_host ?w ''http://h/f'' 1024 (Suc (Suc 0))
      = ''a 5\<newline>b 9\<newline>b2 9\<newline>c 1\<newline>''"
    by (simp add: written_def a example_chunks)
  then have w: "loop_state example_host ?w ''http://h/f'' 1024 ''/cache/d-httphf.gz'' (Suc (Suc 0))
      = example_fetched\<lparr>stdout_closed := True\<rparr>"
    by (simp add: loop_state_def example_requests example_fetched_def example_world_def)
  from fetch_stops [where H = example_digest and url = "''http://h/f''" and fuel = 0,
      OF miss dir go stop] w
  show ?thesis by (simp add: example_name example_cache_file)
qed

lemma example_get:
  "get py (Suc (Suc (Suc 0))) example_host example_digest no_cache False 1024 ''http://h/f'' 2 ''/cache''
     example_world
   = Some (Inr (),
       if no_cache
       then example_fetched\<lparr>stdout := [ascii ''b'', ascii ''b2''],
              files := (files example_fetched)(''/cache/d-httphf.gz'' := None)\<rparr>
       else example_fetched\<lparr>stdout := [ascii ''b'', ascii ''b2'']\<rparr>)"
proof -
  have f: "files example_fetched (path_join ''/cache'' ''d-httphf.gz'')
      = Some ''a 5\<newline>b 9\<newline>b2 9\<newline>c 1\<newline>''"
    by (simp add: example_cache_file files_example_fetched)
  have "stdout example_fetched = []" "\<not> stdout_closed example_fetched"
    by (simp_all add: example_fetched_def)
  with get_after_fetch [OF example_fetch f, where no_cache = no_cache and n = 2]
  show ?thesis by (simp add: example_top2 example_cache_file)
qed

lemma scripted_host_Nil: "answer (scripted_host []) w url cs k = reply 416 []"
proof -
  have "scripted_host [] log = reply 416 []" for log
    by (cases log) (simp_all add: scripted_host_def)
  then show ?thesis by (simp add: answer_def)
qed

lemma example_first_requests:
  "range_requests ''http://h/f'' 1024 (Suc 0) = [(''http://h/f'', [(''Range'', ''bytes=0-1024'')])]"
  by (simp add: range_requests_def offset_def make_range_header_def FILE_START_def
      RANGE_HEADER_def str_int_examples)

lemma example_empty_fetch:
  "get_remote_file (Suc 0) (scripted_host []) example_digest ''http://h/f'' 1024 ''/cache'' False
     example_world = Some (Inr ''d-httphf.gz'', example_empty_entry)"
proof -
  have go: "\<forall>i<0. goes_on (answer (scripted_host []) example_world ''http://h/f'' 1024 i)"
    by simp
  have stop: "status_code (answer (scripted_host []) example_world ''http://h/f'' 1024 0)
      = range_not_satisfiable"
    by (simp add: scripted_host_Nil status_reply range_not_satisfiable_def)
  have w: "loop_state (scripted_host []) example_world ''http://h/f'' 1024 ''/cache/d-httphf.gz'' 0
      = example_empty_entry"
    by (simp add: loop_state_def written_def example_first_requests example_empty_entry_def
        example_world_def)
  from fetch_stops [where H = example_digest and url = "''http://h/f''" and fuel = 0,
      OF example_miss example_dir go stop] w
  show ?thesis by (simp add: example_name example_cache_file)
qed

lemma example_refetch:
  "get_remote_file (Suc 0) (scripted_host []) example_digest ''http://h/f'' 1024 ''/cache'' False
     (example_empty_entry\<lparr>files := (files example_empty_entry)(''/cache/d-httphf.gz'' := None)\<rparr>)
   = Some (Inr ''d-httphf.gz'',
       example_empty_entry\<lparr>sent := [(''http://h/f'', [(''Range'', ''bytes=0-1024'')]),
                                    (''http://h/f'', [(''Range'', ''bytes=0-1024'')])]\<rparr>)"
proof -
  let ?w = "example_empty_entry\<lparr>files := (files example_empty_entry)(''/cache/d-httphf.gz'' := None)\<rparr>"
  have miss: "files ?w (path_join ''/cache'' (example_digest ''http://h/f'' @ ''.gz'')) = None \<or> False"
    by (simp add: example_name example_cache_file)
  have dir: "''/cache'' \<in> dirs ?w" by (simp add: example_empty_entry_def)
  have go: "\<forall>i<0. goes_on (answer (scripted_host []) ?w ''http://h/f'' 1024 i)"
    by simp
  have stop: "status_code (answer (scripted_host []) ?w ''http://h/f'' 1024 0)
      = range_not_satisfiable"
    by (simp add: scripted_host_Nil status_reply range_not_satisfiable_def)
  have w: "loop_state (scripted_host []) ?w ''http://h/f'' 1024 ''/cache/d-httphf.gz'' 0
      = example_empty_entry\<lparr>sent := [(''http://h/f'', [(''Range'', ''bytes=0-1024'')]),
                                    (''http://h/f'', [(''Range'', ''bytes=0-1024'')])]\<rparr>"
    by (simp add: loop_state_def written_def example_first_requests example_empty_entry_def)
  from fetch_stops [where H = example_digest and url = "''http://h/f''" and fuel = 0,
      OF miss dir go stop] w
  show ?thesis by (simp add: example_name example_cache_file)
qed

section \<open>The claims\<close>

text \<open>
  Claim C1. For every \<open>n \<ge> 1\<close> and every stream of records of length \<open>L\<close>,
  \<^verbatim>\<open>process_file\<close> returns \<open>min n L\<close> records in descending order of their values, the
  records of equal value in the order in which the stream has them: the result is the
  first \<open>n\<close> records of the stable descending sort of the stream. On the stream of the
  four lines \<^verbatim>\<open>a 5\<close>, \<^verbatim>\<open>b 9\<close>, \<^verbatim>\<open>b2 9\<close>, \<^verbatim>\<open>c 1\<close> with \<open>n = 2\<close> the result is \<^verbatim>\<open>b\<close>, then
  \<^verbatim>\<open>b2\<close>.
\<close>

theorem process_file_top_n:
  "(exhaust (id_number_tuple_generator py file) = Inr records \<and> 1 \<le> n \<longrightarrow>
     (\<exists>result. process_file py file n = Inr result
        \<and> length result = min n (length records)
        \<and> sorted_wrt (\<lambda>r s. snd s \<le> snd r) result
        \<and> result = take n (sort_key (\<lambda>r. - snd r) records)
        \<and> (\<forall>v. filter (\<lambda>r. snd r = v) result
               = take (length (filter (\<lambda>r. snd r = v) result))
                   (filter (\<lambda>r. snd r = v) records))))
   \<and> process_file py ''a 5\<newline>b 9\<newline>b2 9\<newline>c 1\<newline>'' 2 = Inr [(ascii ''b'', 9), (ascii ''b2'', 9)]"
proof (intro conjI impI)
  assume a: "exhaust (id_number_tuple_generator py file) = Inr records \<and> 1 \<le> n"
  let ?S = "sort_key (\<lambda>r. - snd r) records"
  let ?result = "take n ?S"
  have key: "(\<lambda>y. - itemgetter_1 y) = (\<lambda>r. - snd r)"
    by (simp add: fun_eq_iff itemgetter_1_def)
  have res: "process_file py file n = Inr ?result"
    using a by (simp add: process_file_def nlargest_sorted key)
  have len: "length ?result = min n (length records)" by simp
  have "sorted (map (\<lambda>r. - snd r) ?S)" by (rule sorted_sort_key)
  then have "sorted_wrt (\<lambda>r s. snd s \<le> snd r) ?S"
    by (simp add: sorted_map)
  then have desc: "sorted_wrt (\<lambda>r s. snd s \<le> snd r) ?result"
    by (rule sorted_wrt_take)
  have stable: "\<forall>v. filter (\<lambda>r. snd r = v) ?result
      = take (length (filter (\<lambda>r. snd r = v) ?result)) (filter (\<lambda>r. snd r = v) records)"
  proof
    fix v
    have "filter (\<lambda>r. snd r = v) ?S = filter (\<lambda>r. snd r = v) records"
      using sort_key_stable [of "\<lambda>r. - snd r" "- v" records] by simp
    with filter_take_prefix [of "\<lambda>r. snd r = v" n ?S] show "filter (\<lambda>r. snd r = v) ?result
      = take (length (filter (\<lambda>r. snd r = v) ?result)) (filter (\<lambda>r. snd r = v) records)"
      by simp
  qed
  from res len desc stable
  show "\<exists>result. process_file py file n = Inr result
        \<and> length result = min n (length records)
        \<and> sorted_wrt (\<lambda>r s. snd s \<le> snd r) result
        \<and> result = take n (sort_key (\<lambda>r. - snd r) records)
        \<and> (\<forall>v. filter (\<lambda>r. snd r = v) result
               = take (length (filter (\<lambda>r. snd r = v) result))
                   (filter (\<lambda>r. snd r = v) records))"
    by blast
next
  have key: "(\<lambda>y. - itemgetter_1 y) = (\<lambda>r. - snd r)"
    by (simp add: fun_eq_iff itemgetter_1_def)
  show "process_file py ''a 5\<newline>b 9\<newline>b2 9\<newline>c 1\<newline>'' 2 = Inr [(ascii ''b'', 9), (ascii ''b2'', 9)]"
    by (simp add: process_file_def example_records nlargest_sorted key ascii_def)
qed

theorem process_file_top_n_witness:
  "exhaust (id_number_tuple_generator python_3_11 ''a 5\<newline>b 9\<newline>b2 9\<newline>c 1\<newline>'')
     = Inr [(ascii ''a'', 5), (ascii ''b'', 9), (ascii ''b2'', 9), (ascii ''c'', 1)]
   \<and> (1::nat) \<le> 3
   \<and> process_file python_3_11 ''a 5\<newline>b 9\<newline>b2 9\<newline>c 1\<newline>'' 3
       = Inr [(ascii ''b'', 9), (ascii ''b2'', 9), (ascii ''a'', 5)]"
  using process_file_top_n [of python_3_11 "''a 5\<newline>b 9\<newline>b2 9\<newline>c 1\<newline>''"
      "[(ascii ''a'', 5), (ascii ''b'', 9), (ascii ''b2'', 9), (ascii ''c'', 1)]" 3]
    example_records
  by (auto simp: ascii_def)

text \<open>
  Claim C2, as stated: when the fetch loop aborts on a 200 or on another error status,
  no file remains at the path of the cache entry. The file is created before the first
  request and nothing removes it: after a 200 on the first request, in a cache directory
  that held no file, the (empty) file is there.
\<close>

theorem aborted_fetch_leaves_file_counterexample:
  "files example_world ''/cache/d-httphf.gz'' = None
   \<and> status_code (answer (scripted_host [reply 200 ''a 5\<newline>'']) example_world ''http://h/f'' 1024 0) = 200
   \<and> (\<exists>w'. get_remote_file 1 (scripted_host [reply 200 ''a 5\<newline>'']) example_digest ''http://h/f''
              1024 ''/cache'' False example_world = Some (Inl HTTPError_no_range, w')
         \<and> files w' ''/cache/d-httphf.gz'' = Some [])"
proof -
  let ?host = "scripted_host [reply 200 ''a 5\<newline>'']"
  let ?req = "answer ?host example_world ''http://h/f'' 1024 0"
  have st: "status_code ?req = 200" by (simp add: answer_scripted_0 status_reply)
  then have ns: "status_code ?req \<noteq> range_not_satisfiable" by (simp add: range_not_satisfiable_def)
  have go: "\<forall>i<0. goes_on (answer ?host example_world ''http://h/f'' 1024 i)" by simp
  from st have "status_code ?req = ok" by (simp add: ok_def)
  from fetch_aborts [where H = example_digest and url = "''http://h/f''" and fuel = 0 and m = 0,
      OF example_miss example_dir go ns loop_body_ok [OF this]] st
  show ?thesis
    by (simp add: example_name example_cache_file files_loop_state written_def example_world_def)
qed

text \<open>
  Claim C2, amended: when the fetch loop aborts on a 200, or on a status from 400 to 599
  other than 416, the file at the path of the cache entry remains, with what the chunks
  before the abort wrote to it, and a later call without refresh returns it as a cache
  hit, sending no request.
\<close>

theorem aborted_fetch_leaves_file:
  assumes "files w (path_join cache_root (sha256_hexdigest url @ ''.gz'')) = None \<or> should_refresh"
    and "cache_root \<in> dirs w"
    and "\<forall>i<m. goes_on (answer host w url chunk_size i)"
    and "status_code (answer host w url chunk_size m) = ok
         \<or> (400 \<le> status_code (answer host w url chunk_size m)
            \<and> status_code (answer host w url chunk_size m) < 600
            \<and> status_code (answer host w url chunk_size m) \<noteq> range_not_satisfiable)"
  shows "\<exists>e w'. get_remote_file (Suc (m + fuel)) host sha256_hexdigest url chunk_size cache_root
                 should_refresh w = Some (Inl e, w')
          \<and> e = (if status_code (answer host w url chunk_size m) = ok then HTTPError_no_range
                   else HTTPError_status (status_code (answer host w url chunk_size m)))
          \<and> files w' (path_join cache_root (sha256_hexdigest url @ ''.gz''))
              = Some (concat (map (\<lambda>i. chunk_bytes (answer host w url chunk_size i)) [0..<m]))
          \<and> get_remote_file fuel' host' sha256_hexdigest url chunk_size' cache_root False w'
              = Some (Inr (sha256_hexdigest url @ ''.gz''), w')"
proof -
  let ?cf = "path_join cache_root (sha256_hexdigest url @ ''.gz'')"
  let ?w' = "loop_state host w url chunk_size ?cf m"
  let ?req = "answer host w url chunk_size m"
  have f: "files ?w' ?cf = Some (concat (map (\<lambda>i. chunk_bytes (answer host w url chunk_size i)) [0..<m]))"
    by (simp add: files_loop_state written_def)
  have hit: "get_remote_file fuel' host' sha256_hexdigest url chunk_size' cache_root False ?w'
              = Some (Inr (sha256_hexdigest url @ ''.gz''), ?w')"
    by (rule get_remote_file_hit [where H = sha256_hexdigest and url = url, OF f])
  from assms(4) have ns: "status_code ?req \<noteq> range_not_satisfiable"
    by (auto simp: ok_def range_not_satisfiable_def)
  let ?e = "if status_code ?req = ok then HTTPError_no_range
            else HTTPError_status (status_code ?req)"
  have b: "loop_body ?cf ?req ?w' = Inl ?e"
  proof (cases "status_code ?req = ok")
    case True
    then show ?thesis by (simp add: loop_body_ok)
  next
    case False
    with assms(4) show ?thesis by (simp add: loop_body_error_status)
  qed
  from fetch_aborts [where H = sha256_hexdigest and url = url and fuel = fuel,
      OF assms(1-3) ns b]
  have "get_remote_file (Suc (m + fuel)) host sha256_hexdigest url chunk_size cache_root
          should_refresh w = Some (Inl ?e, ?w')" .
  with f hit show ?thesis by blast
qed

theorem aborted_fetch_leaves_file_witness:
  "goes_on (answer (scripted_host [reply 206 ''a 5\<newline>'', reply 503 []]) example_world ''http://h/f'' 1024 0)
   \<and> status_code (answer (scripted_host [reply 206 ''a 5\<newline>'', reply 503 []]) example_world
        ''http://h/f'' 1024 1) = 503
   \<and> (\<exists>w'. get_remote_file 2 (scripted_host [reply 206 ''a 5\<newline>'', reply 503 []]) example_digest
              ''http://h/f'' 1024 ''/cache'' False example_world = Some (Inl (HTTPError_status 503), w')
         \<and> files w' ''/cache/d-httphf.gz'' = Some ''a 5\<newline>''
         \<and> get_remote_file 0 example_host example_digest ''http://h/f'' 256000 ''/cache'' False w'
            = Some (Inr ''d-httphf.gz'', w'))"
proof -
  let ?host = "scripted_host [reply 206 ''a 5\<newline>'', reply 503 []]"
  have go: "\<forall>i<Suc 0. goes_on (answer ?host example_world ''http://h/f'' 1024 i)"
    by (simp add: answer_scripted_0 goes_on_reply)
  have st: "status_code (answer ?host example_world ''http://h/f'' 1024 (Suc 0)) = 503"
    by (simp add: answer_scripted_0 status_reply)
  then have ab: "status_code (answer ?host example_world ''http://h/f'' 1024 (Suc 0)) = ok
         \<or> (400 \<le> status_code (answer ?host example_world ''http://h/f'' 1024 (Suc 0))
            \<and> status_code (answer ?host example_world ''http://h/f'' 1024 (Suc 0)) < 600
            \<and> status_code (answer ?host example_world ''http://h/f'' 1024 (Suc 0)) \<noteq> range_not_satisfiable)"
    by (simp add: range_not_satisfiable_def)
  from aborted_fetch_leaves_file [where sha256_hexdigest = example_digest
      and url = "''http://h/f''" and fuel = 0 and fuel' = 0 and host' = example_host
      and chunk_size' = 256000, OF example_miss example_dir go ab] go st
  show ?thesis
    by (simp add: example_name example_cache_file numeral_2_eq_2 answer_scripted_0
        chunk_bytes_reply ok_def)
qed

text \<open>
  Claim C3. When the cache entry of the URL exists and no refresh is asked for,
  \<^verbatim>\<open>get_remote_file\<close> returns the name of the entry and changes nothing: it sends no
  request. And after a run of \<^verbatim>\<open>get\<close> that ended well (without \<^verbatim>\<open>--no-cache\<close>), a
  second run without refresh ends well, prints again exactly the lines that the first
  one printed, and sends no request.
\<close>

theorem cache_hit_no_request:
  "(files w (path_join cache_root (sha256_hexdigest url @ ''.gz'')) = Some cached \<longrightarrow>
      get_remote_file fuel host sha256_hexdigest url chunk_size cache_root False w
      = Some (Inr (sha256_hexdigest url @ ''.gz''), w))
   \<and> (get py fuel host sha256_hexdigest False refresh_cache chunk_size url n cache_root w
        = Some (Inr (), w1) \<longrightarrow>
      (\<exists>w2. get py fuel' host' sha256_hexdigest no_cache' False chunk_size' url n cache_root w1
               = Some (Inr (), w2)
         \<and> stdout w2 = stdout w1 @ drop (length (stdout w)) (stdout w1)
         \<and> sent w2 = sent w1))"
proof (intro conjI impI)
  assume "files w (path_join cache_root (sha256_hexdigest url @ ''.gz'')) = Some cached"
  then show "get_remote_file fuel host sha256_hexdigest url chunk_size cache_root False w
      = Some (Inr (sha256_hexdigest url @ ''.gz''), w)"
    by (rule get_remote_file_hit)
next
  assume g: "get py fuel host sha256_hexdigest False refresh_cache chunk_size url n cache_root w
        = Some (Inr (), w1)"
  let ?name = "sha256_hexdigest url @ ''.gz''"
  from g obtain r0 w0 where
    f: "get_remote_file fuel host sha256_hexdigest url chunk_size cache_root refresh_cache w
        = Some (r0, w0)"
    by (cases "get_remote_file fuel host sha256_hexdigest url chunk_size cache_root refresh_cache w")
       (auto simp: get_def)
  from g f obtain name where r0: "r0 = Inr name" by (cases r0) (auto simp: get_def)
  from get_remote_file_frame [OF f] r0
  have name: "name = ?name" and ex: "files w0 (path_join cache_root name) \<noteq> None"
    and out: "stdout w0 = stdout w"
    by auto
  from ex obtain file0 where file0: "files w0 (path_join cache_root name) = Some file0" by auto
  from g get_after_fetch [OF f [unfolded r0] file0, where no_cache = False and n = n]
  obtain records where p: "process_file py file0 n = Inr records"
    and op: "\<not> (stdout_closed w0 \<and> records \<noteq> [])"
    and w1: "w1 = w0\<lparr>stdout := stdout w0 @ map fst records\<rparr>"
    by (auto split: sum.splits if_splits)
  from w1 file0 name have hit: "files w1 (path_join cache_root ?name) = Some file0" by simp
  from w1 out have d: "drop (length (stdout w)) (stdout w1) = map fst records" by simp
  from w1 op have op1: "\<not> (stdout_closed w1 \<and> records \<noteq> [])" by simp
  let ?w2 = "if no_cache'
             then w1\<lparr>stdout := stdout w1 @ map fst records,
                     files := (files w1)(path_join cache_root ?name := None)\<rparr>
             else w1\<lparr>stdout := stdout w1 @ map fst records\<rparr>"
  from get_after_fetch [OF get_remote_file_hit [where H = sha256_hexdigest and url = url
        and fuel = fuel' and host = host' and cs = chunk_size', OF hit] hit,
      where no_cache = no_cache' and n = n] p op1
  have "get py fuel' host' sha256_hexdigest no_cache' False chunk_size' url n cache_root w1
        = Some (Inr (), ?w2)"
    by simp
  moreover have "stdout ?w2 = stdout w1 @ drop (length (stdout w)) (stdout w1)"
    using d by simp
  moreover have "sent ?w2 = sent w1" by simp
  ultimately show "\<exists>w2. get py fuel' host' sha256_hexdigest no_cache' False chunk_size' url n cache_root w1
               = Some (Inr (), w2)
         \<and> stdout w2 = stdout w1 @ drop (length (stdout w)) (stdout w1)
         \<and> sent w2 = sent w1"
    by blast
qed

theorem cache_hit_no_request_witness:
  "files example_fetched ''/cache/d-httphf.gz'' = Some ''a 5\<newline>b 9\<newline>b2 9\<newline>c 1\<newline>''
   \<and> get_remote_file 0 (scripted_host []) example_digest ''http://h/f'' 1024 ''/cache'' False
        example_fetched = Some (Inr ''d-httphf.gz'', example_fetched)
   \<and> get python_3_11 3 example_host example_digest False False 1024 ''http://h/f'' 2 ''/cache'' example_world
        = Some (Inr (), example_fetched\<lparr>stdout := [ascii ''b'', ascii ''b2'']\<rparr>)
   \<and> (\<exists>w2. get python_3_11 0 (scripted_host []) example_digest False False 256000 ''http://h/f'' 2 ''/cache''
              (example_fetched\<lparr>stdout := [ascii ''b'', ascii ''b2'']\<rparr>) = Some (Inr (), w2)
         \<and> stdout w2 = [ascii ''b'', ascii ''b2'', ascii ''b'', ascii ''b2'']
         \<and> sent w2 = sent example_fetched)"
proof -
  have g: "get python_3_11 (Suc (Suc (Suc 0))) example_host example_digest False False 1024 ''http://h/f'' 2
      ''/cache'' example_world = Some (Inr (), example_fetched\<lparr>stdout := [ascii ''b'', ascii ''b2'']\<rparr>)"
    using example_get [of python_3_11 False] by simp
  have f: "files example_fetched (path_join ''/cache'' (example_digest ''http://h/f'' @ ''.gz''))
      = Some ''a 5\<newline>b 9\<newline>b2 9\<newline>c 1\<newline>''"
    by (simp add: example_name example_cache_file files_example_fetched)
  from cache_hit_no_request [where py = python_3_11 and sha256_hexdigest = example_digest and url = "''http://h/f''"
      and cache_root = "''/cache''" and w = example_fetched and fuel = 0 and host = "scripted_host []"
      and chunk_size = 1024 and cached = "''a 5\<newline>b 9\<newline>b2 9\<newline>c 1\<newline>''"]
  have c1: "get_remote_file 0 (scripted_host []) example_digest ''http://h/f'' 1024 ''/cache'' False
        example_fetched = Some (Inr ''d-httphf.gz'', example_fetched)"
    using f by (simp add: example_name)
  have s: "stdout example_world = []" by (simp add: example_world_def)
  from cache_hit_no_request [where py = python_3_11 and sha256_hexdigest = example_digest and url = "''http://h/f''"
      and cache_root = "''/cache''" and w = example_world and fuel = "Suc (Suc (Suc 0))"
      and host = example_host and chunk_size = 1024 and refresh_cache = False and n = 2
      and ?w1.0 = "example_fetched\<lparr>stdout := [ascii ''b'', ascii ''b2'']\<rparr>"
      and fuel' = 0 and host' = "scripted_host []" and chunk_size' = 256000
      and no_cache' = False] g
  have c2: "\<exists>w2. get python_3_11 0 (scripted_host []) example_digest False False 256000 ''http://h/f'' 2 ''/cache''
              (example_fetched\<lparr>stdout := [ascii ''b'', ascii ''b2'']\<rparr>) = Some (Inr (), w2)
         \<and> stdout w2 = [ascii ''b'', ascii ''b2'', ascii ''b'', ascii ''b2'']
         \<and> sent w2 = sent example_fetched"
    by (simp add: s)
  from c1 c2 g show ?thesis by (simp add: files_example_fetched numeral_3_eq_3)
qed

text \<open>
  Claim C4. When a range request is answered with 200, the fetch raises the
  \<^verbatim>\<open>HTTPError\<close> of line 158 at once: the cache file holds what the chunks before it wrote,
  not the body of that response, and the request answered with 200 is the last one.
\<close>

theorem ok_status_aborts_fetch:
  assumes "files w (path_join cache_root (sha256_hexdigest url @ ''.gz'')) = None \<or> should_refresh"
    and "cache_root \<in> dirs w"
    and "\<forall>i<m. goes_on (answer host w url chunk_size i)"
    and "status_code (answer host w url chunk_size m) = ok"
  shows "\<exists>w'. get_remote_file (Suc (m + fuel)) host sha256_hexdigest url chunk_size cache_root
                 should_refresh w = Some (Inl HTTPError_no_range, w')
          \<and> files w' (path_join cache_root (sha256_hexdigest url @ ''.gz''))
              = Some (concat (map (\<lambda>i. chunk_bytes (answer host w url chunk_size i)) [0..<m]))
          \<and> sent w' = sent w @ range_requests url chunk_size (Suc m)"
proof -
  have "status_code (answer host w url chunk_size m) \<noteq> range_not_satisfiable"
    using assms(4) by (simp add: ok_def range_not_satisfiable_def)
  from fetch_aborts [where H = sha256_hexdigest and url = url and fuel = fuel,
      OF assms(1-3) this loop_body_ok [OF assms(4)]]
  show ?thesis by (simp add: files_loop_state sent_loop_state written_def)
qed

theorem ok_status_aborts_fetch_witness:
  "goes_on (answer (scripted_host [reply 206 ''a 5\<newline>'', reply 200 ''a 5\<newline>b 9\<newline>'']) example_world
      ''http://h/f'' 1024 0)
   \<and> status_code (answer (scripted_host [reply 206 ''a 5\<newline>'', reply 200 ''a 5\<newline>b 9\<newline>'']) example_world
        ''http://h/f'' 1024 1) = ok
   \<and> (\<exists>w'. get_remote_file 2 (scripted_host [reply 206 ''a 5\<newline>'', reply 200 ''a 5\<newline>b 9\<newline>''])
              example_digest ''http://h/f'' 1024 ''/cache'' False example_world
              = Some (Inl HTTPError_no_range, w')
         \<and> files w' ''/cache/d-httphf.gz'' = Some ''a 5\<newline>''
         \<and> sent w' = [(''http://h/f'', [(''Range'', ''bytes=0-1024'')]),
                      (''http://h/f'', [(''Range'', ''bytes=1025-2049'')])])"
proof -
  let ?host = "scripted_host [reply 206 ''a 5\<newline>'', reply 200 ''a 5\<newline>b 9\<newline>'']"
  have go: "\<forall>i<Suc 0. goes_on (answer ?host example_world ''http://h/f'' 1024 i)"
    by (simp add: answer_scripted_0 goes_on_reply)
  have st: "status_code (answer ?host example_world ''http://h/f'' 1024 (Suc 0)) = ok"
    by (simp add: answer_scripted_0 status_reply ok_def)
  from ok_status_aborts_fetch [where sha256_hexdigest = example_digest
      and url = "''http://h/f''" and fuel = 0, OF example_miss example_dir go st] go st
  show ?thesis
    by (simp add: example_name example_cache_file sent_example_world example_requests2
        numeral_2_eq_2 answer_scripted_0 chunk_bytes_reply)
qed

text \<open>
  Claim C5, as stated: after a fetch of chunks with status 206, the content of the cache
  file is the concatenation of the bodies of the responses. The program writes
  \<^verbatim>\<open>req.text.encode()\<close>, the UTF-8 encoding of the decoded text, not the body: for a body
  of the one byte E9, which \<^verbatim>\<open>requests\<close> decodes as ISO-8859-1 when the content type is
  a text type without a character set, the file holds the two bytes C3 A9.
\<close>

theorem cache_file_is_not_body_counterexample:
  "status_code (answer (scripted_host [latin1_reply]) example_world ''http://h/f'' 1024 0) = 206
   \<and> req_content (answer (scripted_host [latin1_reply]) example_world ''http://h/f'' 1024 0) = [CHR 0xE9]
   \<and> status_code (answer (scripted_host [latin1_reply]) example_world ''http://h/f'' 1024 1) = 416
   \<and> (\<exists>w'. get_remote_file 2 (scripted_host [latin1_reply]) example_digest ''http://h/f'' 1024
              ''/cache'' False example_world = Some (Inr ''d-httphf.gz'', w')
         \<and> files w' ''/cache/d-httphf.gz'' = Some [CHR 0xC3, CHR 0xA9]
         \<and> files w' ''/cache/d-httphf.gz''
             \<noteq> Some (concat (map (\<lambda>i. req_content (answer (scripted_host [latin1_reply])
                                      example_world ''http://h/f'' 1024 i)) [0..<1])))"
proof -
  let ?host = "scripted_host [latin1_reply]"
  have go: "\<forall>i<Suc 0. goes_on (answer ?host example_world ''http://h/f'' 1024 i)"
    by (simp add: answer_scripted_0 latin1_reply_chunk)
  have st: "status_code (answer ?host example_world ''http://h/f'' 1024 (Suc 0)) = range_not_satisfiable"
    by (simp add: answer_scripted_0 status_reply range_not_satisfiable_def)
  have s0: "status_code (answer ?host example_world ''http://h/f'' 1024 0) = 206"
    by (simp add: answer_scripted_0 latin1_reply_def)
  from fetch_stops [where H = example_digest and url = "''http://h/f''" and fuel = 0,
      OF example_miss example_dir go st] st s0
  show ?thesis
    by (simp add: example_name example_cache_file files_loop_state written_def numeral_2_eq_2
        answer_scripted_0 latin1_reply_chunk range_not_satisfiable_def)
qed

text \<open>
  Claim C5, amended: after a fetch of chunks with status 206 that ends with 416, the
  content of the cache file is the concatenation, in the order of the offsets, of the
  UTF-8 encodings of the texts of the responses; it is the concatenation of their bodies
  when every body is ASCII and decoded as such.
\<close>

theorem cache_file_is_encoded_text:
  assumes "files w (path_join cache_root (sha256_hexdigest url @ ''.gz'')) = None \<or> should_refresh"
    and "cache_root \<in> dirs w"
    and "\<forall>i<m. status_code (answer host w url chunk_size i) = SUCCESS_STATUS
              \<and> encode (req_text (answer host w url chunk_size i)) = Inr (chunk i)"
    and "status_code (answer host w url chunk_size m) = range_not_satisfiable"
  shows "\<exists>w'. get_remote_file (Suc (m + fuel)) host sha256_hexdigest url chunk_size cache_root
                 should_refresh w = Some (Inr (sha256_hexdigest url @ ''.gz''), w')
          \<and> files w' (path_join cache_root (sha256_hexdigest url @ ''.gz''))
              = Some (concat (map chunk [0..<m]))
          \<and> ((\<forall>i<m. req_text (answer host w url chunk_size i)
                        = ascii (req_content (answer host w url chunk_size i))
                    \<and> (\<forall>c\<in>set (req_content (answer host w url chunk_size i)). (of_char c :: nat) < 128))
               \<longrightarrow> files w' (path_join cache_root (sha256_hexdigest url @ ''.gz''))
                    = Some (concat (map (\<lambda>i. req_content (answer host w url chunk_size i)) [0..<m])))"
proof -
  let ?cf = "path_join cache_root (sha256_hexdigest url @ ''.gz'')"
  let ?w' = "loop_state host w url chunk_size ?cf m"
  from assms(3) have go: "\<forall>i<m. goes_on (answer host w url chunk_size i)"
    and cb: "\<forall>i<m. chunk_bytes (answer host w url chunk_size i) = chunk i"
    using chunk_bytes_encoded by blast+
  from fetch_stops [where H = sha256_hexdigest and url = url and fuel = fuel,
      OF assms(1,2) go assms(4)]
  have run: "get_remote_file (Suc (m + fuel)) host sha256_hexdigest url chunk_size cache_root
                 should_refresh w = Some (Inr (sha256_hexdigest url @ ''.gz''), ?w')" .
  have mc: "map (\<lambda>i. chunk_bytes (answer host w url chunk_size i)) [0..<m] = map chunk [0..<m]"
    using cb by simp
  have f: "files ?w' ?cf = Some (concat (map chunk [0..<m]))"
    by (simp only: files_loop_state written_def mc)
  have a: "files ?w' ?cf = Some (concat (map (\<lambda>i. req_content (answer host w url chunk_size i)) [0..<m]))"
    if asc: "\<forall>i<m. req_text (answer host w url chunk_size i)
                        = ascii (req_content (answer host w url chunk_size i))
                    \<and> (\<forall>c\<in>set (req_content (answer host w url chunk_size i)). (of_char c :: nat) < 128)"
  proof -
    have "chunk i = req_content (answer host w url chunk_size i)" if "i < m" for i
    proof -
      from asc that have "encode (req_text (answer host w url chunk_size i))
          = Inr (req_content (answer host w url chunk_size i))"
        by (simp add: encode_ascii)
      with assms(3) that show ?thesis by simp
    qed
    then have "map chunk [0..<m] = map (\<lambda>i. req_content (answer host w url chunk_size i)) [0..<m]"
      by simp
    with f show ?thesis by (simp only:)
  qed
  from run f a show ?thesis by blast
qed

theorem cache_file_is_encoded_text_witness:
  "status_code (answer example_host example_world ''http://h/f'' 1024 0) = SUCCESS_STATUS
   \<and> encode (req_text (answer example_host example_world ''http://h/f'' 1024 0)) = Inr ''a 5\<newline>b 9\<newline>''
   \<and> status_code (answer example_host example_world ''http://h/f'' 1024 1) = SUCCESS_STATUS
   \<and> encode (req_text (answer example_host example_world ''http://h/f'' 1024 1)) = Inr ''b2 9\<newline>c 1\<newline>''
   \<and> status_code (answer example_host example_world ''http://h/f'' 1024 2) = range_not_satisfiable
   \<and> (\<exists>w'. get_remote_file 3 example_host example_digest ''http://h/f'' 1024 ''/cache'' False
              example_world = Some (Inr ''d-httphf.gz'', w')
         \<and> files w' ''/cache/d-httphf.gz'' = Some ''a 5\<newline>b 9\<newline>b2 9\<newline>c 1\<newline>''
         \<and> files w' ''/cache/d-httphf.gz''
             = Some (req_content (answer example_host example_world ''http://h/f'' 1024 0)
                     @ req_content (answer example_host example_world ''http://h/f'' 1024 1)))"
proof -
  let ?chunk = "\<lambda>i::nat. if i = 0 then ''a 5\<newline>b 9\<newline>'' else ''b2 9\<newline>c 1\<newline>''"
  have a0: "answer example_host example_world ''http://h/f'' 1024 0 = reply 206 ''a 5\<newline>b 9\<newline>''"
    and a1: "answer example_host example_world ''http://h/f'' 1024 (Suc 0) = reply 206 ''b2 9\<newline>c 1\<newline>''"
    by (simp_all add: example_host_def answer_scripted_0)
  have e0: "encode (req_text (reply 206 ''a 5\<newline>b 9\<newline>'')) = Inr ''a 5\<newline>b 9\<newline>''"
    and e1: "encode (req_text (reply 206 ''b2 9\<newline>c 1\<newline>'')) = Inr ''b2 9\<newline>c 1\<newline>''"
    by (simp_all add: reply_def encode_ascii)
  have hyp: "\<forall>i<Suc (Suc 0). status_code (answer example_host example_world ''http://h/f'' 1024 i)
                 = SUCCESS_STATUS
              \<and> encode (req_text (answer example_host example_world ''http://h/f'' 1024 i))
                 = Inr (?chunk i)"
    by (simp add: All_less_Suc a0 a1 e0 e1 status_reply SUCCESS_STATUS_def)
  have asc: "\<forall>i<Suc (Suc 0). req_text (answer example_host example_world ''http://h/f'' 1024 i)
                        = ascii (req_content (answer example_host example_world ''http://h/f'' 1024 i))
                    \<and> (\<forall>c\<in>set (req_content (answer example_host example_world ''http://h/f'' 1024 i)).
                          (of_char c :: nat) < 128)"
    by (simp add: All_less_Suc a0 a1 reply_def)
  from cache_file_is_encoded_text [where sha256_hexdigest = example_digest
      and url = "''http://h/f''" and fuel = 0 and chunk = ?chunk,
      OF example_miss example_dir hyp example_stop] asc
  have "\<exists>w'. get_remote_file 3 example_host example_digest ''http://h/f'' 1024 ''/cache'' False
              example_world = Some (Inr ''d-httphf.gz'', w')
         \<and> files w' ''/cache/d-httphf.gz'' = Some ''a 5\<newline>b 9\<newline>b2 9\<newline>c 1\<newline>''
         \<and> files w' ''/cache/d-httphf.gz''
             = Some (req_content (answer example_host example_world ''http://h/f'' 1024 0)
                     @ req_content (answer example_host example_world ''http://h/f'' 1024 1))"
    by (auto simp: example_name example_cache_file numeral_3_eq_3)
  with hyp example_stop show ?thesis
    by (simp add: All_less_Suc numeral_2_eq_2)
qed

text \<open>
  Claim C6. The \<open>k\<close>-th range request (counted from 0) of a fetch with chunk size \<open>s\<close>
  has the one header \<^verbatim>\<open>Range: bytes=o-(o+s)\<close> with \<open>o = k (s + 1)\<close>: the requests that
  \<^verbatim>\<open>get_remote_file\<close> has sent when it returns are these, for \<open>k\<close> from 0 up to some
  number; and the window after the one that ends at \<open>o + s\<close> starts at \<open>o + s + 1\<close>.
\<close>

theorem range_windows:
  assumes "get_remote_file fuel host sha256_hexdigest url chunk_size cache_root should_refresh w
           = Some (r, w')"
  shows "\<exists>m. sent w' = sent w @
            map (\<lambda>k. (url, [(''Range'', ''bytes='' @ str_int (int k * (chunk_size + 1)) @ ''-''
                                @ str_int (int k * (chunk_size + 1) + chunk_size))])) [0..<m]
          \<and> (\<forall>k. int (Suc k) * (chunk_size + 1) = (int k * (chunk_size + 1) + chunk_size) + 1)"
proof -
  from get_remote_file_requests [OF assms] obtain m where
    "sent w' = sent w @ range_requests url chunk_size m" by blast
  then have "sent w' = sent w @
            map (\<lambda>k. (url, [(''Range'', ''bytes='' @ str_int (int k * (chunk_size + 1)) @ ''-''
                                @ str_int (int k * (chunk_size + 1) + chunk_size))])) [0..<m]"
    by (simp only: range_requests_explicit)
  moreover have "\<forall>k. int (Suc k) * (chunk_size + 1) = (int k * (chunk_size + 1) + chunk_size) + 1"
    by (simp add: algebra_simps)
  ultimately show ?thesis by blast
qed

theorem range_windows_witness:
  "get_remote_file 3 example_host example_digest ''http://h/f'' 1024 ''/cache'' False example_world
     = Some (Inr ''d-httphf.gz'', example_fetched)
   \<and> sent example_world = []
   \<and> sent example_fetched = [(''http://h/f'', [(''Range'', ''bytes=0-1024'')]),
                              (''http://h/f'', [(''Range'', ''bytes=1025-2049'')]),
                              (''http://h/f'', [(''Range'', ''bytes=2050-3074'')])]
   \<and> (\<exists>m. sent example_fetched = sent example_world @
            map (\<lambda>k. (''http://h/f'', [(''Range'', ''bytes='' @ str_int (int k * (1024 + 1)) @ ''-''
                                @ str_int (int k * (1024 + 1) + 1024))])) [0..<m])"
  using range_windows [OF example_fetch] example_fetch
  by (simp add: numeral_3_eq_3 sent_example_world) (simp add: example_fetched_def)

text \<open>
  Claim C7, as stated: the decoder fails exactly when the line has fewer than two tokens
  or its second token is no integer. The line \<^verbatim>\<open>a 5 x\<close> has three tokens, the second is
  the integer 5, and the decoder fails on it: the loop header unpacks exactly two names.
\<close>

theorem line_record_three_tokens_counterexample:
  "decode ''a 5 x'' = Inr (ascii ''a 5 x'') \<and>
   \<not> (isl (line_record python_3_11 ''a 5 x'') \<longleftrightarrow>
        (length (re_split (strip (ascii ''a 5 x''))) < 2
         \<or> py_int python_3_11 (re_split (strip (ascii ''a 5 x'')) ! 1) = None))"
  by (simp add: line_record_def text_eval)

text \<open>
  Claim C7, amended: the decoder yields \<open>(id, value)\<close> exactly when \<^verbatim>\<open>decode\<close> accepts the
  line as UTF-8 and its text is, between runs of white space at both ends that may be
  empty, the token \<open>id\<close>, a run of white space that is not empty, and a second token,
  which is an integer literal of value \<open>value\<close>: exactly two tokens. In every other case
  it fails. An integer literal is an optional sign and groups of decimal digits, of any
  script that the interpreter knows, with one underscore between two groups and no more
  digits than the interpreter allows. The generator of the records yields, for the line
  that \<^verbatim>\<open>readline\<close> returns, what the decoder makes of it, and ends when it fails.
\<close>

theorem line_record_iff:
  "(line_record py next_line = Inr (num_id, v) \<longleftrightarrow>
      (\<exists>t pre sep number post.
          decode next_line = Inr t \<and> t = pre @ num_id @ sep @ number @ post
          \<and> white pre \<and> token num_id \<and> white sep \<and> sep \<noteq> [] \<and> token number \<and> white post
          \<and> int_literal py number = Some v))
   \<and> (isl (line_record py next_line) \<longleftrightarrow>
      \<not> (\<exists>t pre i sep number post y.
          decode next_line = Inr t \<and> t = pre @ i @ sep @ number @ post
          \<and> white pre \<and> token i \<and> white sep \<and> sep \<noteq> [] \<and> token number \<and> white post
          \<and> int_literal py number = Some y))
   \<and> (fst (readline file) \<noteq> [] \<longrightarrow>
        id_number_tuple_generator py file =
          (case line_record py (fst (readline file)) of
             Inl e \<Rightarrow> [Inl e]
           | Inr r \<Rightarrow> Inr r # id_number_tuple_generator py (snd (readline file))))"
proof (intro conjI)
  show "line_record py next_line = Inr (num_id, v) \<longleftrightarrow>
      (\<exists>t pre sep number post.
          decode next_line = Inr t \<and> t = pre @ num_id @ sep @ number @ post
          \<and> white pre \<and> token num_id \<and> white sep \<and> sep \<noteq> [] \<and> token number \<and> white post
          \<and> int_literal py number = Some v)"
    by (rule line_record_Inr)
  have "isl (line_record py next_line) \<longleftrightarrow> \<not> (\<exists>i y. line_record py next_line = Inr (i, y))"
    by (cases "line_record py next_line") auto
  also have "\<dots> \<longleftrightarrow> \<not> (\<exists>i y t pre sep number post.
          decode next_line = Inr t \<and> t = pre @ i @ sep @ number @ post
          \<and> white pre \<and> token i \<and> white sep \<and> sep \<noteq> [] \<and> token number \<and> white post
          \<and> int_literal py number = Some y)"
    unfolding line_record_Inr ..
  also have "\<dots> \<longleftrightarrow> \<not> (\<exists>t pre i sep number post y.
          decode next_line = Inr t \<and> t = pre @ i @ sep @ number @ post
          \<and> white pre \<and> token i \<and> white sep \<and> sep \<noteq> [] \<and> token number \<and> white post
          \<and> int_literal py number = Some y)"
    by blast
  finally show "isl (line_record py next_line) \<longleftrightarrow>
      \<not> (\<exists>t pre i sep number post y.
          decode next_line = Inr t \<and> t = pre @ i @ sep @ number @ post
          \<and> white pre \<and> token i \<and> white sep \<and> sep \<noteq> [] \<and> token number \<and> white post
          \<and> int_literal py number = Some y)" .
  show "fst (readline file) \<noteq> [] \<longrightarrow>
        id_number_tuple_generator py file =
          (case line_record py (fst (readline file)) of
             Inl e \<Rightarrow> [Inl e]
           | Inr r \<Rightarrow> Inr r # id_number_tuple_generator py (snd (readline file)))"
    by (simp add: id_number_tuple_generator_def split_generator_step line_record_def
        split: sum.splits)
qed

theorem line_record_iff_witness:
  "line_record python_3_11 ''b2  -9_0 \<newline>'' = Inr (ascii ''b2'', - 90)
   \<and> line_record python_3_11 [CHR 0x61, CHR 0x20, CHR 0xD9, CHR 0xA3, CHR 0x0A] = Inr (ascii ''a'', 3)
   \<and> (\<exists>v. line_record python_3_11 (''a '' @ replicate 4300 CHR ''1'' @ ''\<newline>'') = Inr (ascii ''a'', v))
   \<and> isl (line_record python_3_11 (''a '' @ replicate 4301 CHR ''1'' @ ''\<newline>''))
   \<and> isl (line_record python_3_11 ''b2 9 x\<newline>'') \<and> isl (line_record python_3_11 ''b2\<newline>'')
   \<and> isl (line_record python_3_11 ''b2 x\<newline>'') \<and> isl (line_record python_3_11 [CHR 0xFF, CHR 0x0A])"
proof -
  have l1: "int_literal python_3_11 (ascii ''-9_0'') = Some (- 90)"
    by (simp add: int_literal_def ascii_literal_def western_def digit_groups_def within_limit_def
        decimal_value_def isdigit_def ascii_def)
  have l2: "int_literal python_3_11 [0x663] = Some 3"
    by (simp add: int_literal_def ascii_literal_def western_def todecimal_def python_3_11_def
        digit_groups_def within_limit_def decimal_value_def isdigit_def)
  have "\<exists>t pre sep number post.
          decode ''b2  -9_0 \<newline>'' = Inr t \<and> t = pre @ ascii ''b2'' @ sep @ number @ post
          \<and> white pre \<and> token (ascii ''b2'') \<and> white sep \<and> sep \<noteq> [] \<and> token number \<and> white post
          \<and> int_literal python_3_11 number = Some (- 90)"
    using l1
    by (intro exI [of _ "ascii ''b2  -9_0 \<newline>''"] exI [of _ "[]"] exI [of _ "ascii ''  ''"]
          exI [of _ "ascii ''-9_0''"] exI [of _ "ascii '' \<newline>''"])
       (simp add: text_eval white_def token_def)
  with line_record_iff [of python_3_11 "''b2  -9_0 \<newline>''" "ascii ''b2''" "- 90"]
  have c1: "line_record python_3_11 ''b2  -9_0 \<newline>'' = Inr (ascii ''b2'', - 90)" by blast
  have "\<exists>t pre sep number post.
          decode [CHR 0x61, CHR 0x20, CHR 0xD9, CHR 0xA3, CHR 0x0A] = Inr t
          \<and> t = pre @ ascii ''a'' @ sep @ number @ post
          \<and> white pre \<and> token (ascii ''a'') \<and> white sep \<and> sep \<noteq> [] \<and> token number \<and> white post
          \<and> int_literal python_3_11 number = Some 3"
    using l2
    by (intro exI [of _ "[0x61, 0x20, 0x663, 0x0A]"] exI [of _ "[]"] exI [of _ "[0x20]"]
          exI [of _ "[0x663]"] exI [of _ "[0x0A]"])
       (simp add: text_eval white_def token_def)
  with line_record_iff [of python_3_11 "[CHR 0x61, CHR 0x20, CHR 0xD9, CHR 0xA3, CHR 0x0A]"
      "ascii ''a''" 3]
  have c2: "line_record python_3_11 [CHR 0x61, CHR 0x20, CHR 0xD9, CHR 0xA3, CHR 0x0A]
      = Inr (ascii ''a'', 3)" by blast
  have n: "(4300::nat) = Suc 4299" "(4301::nat) = Suc 4300" by simp_all
  have c3: "\<exists>v. line_record python_3_11 (''a '' @ replicate 4300 CHR ''1'' @ ''\<newline>'')
      = Inr (ascii ''a'', v)"
    unfolding n line_record_ones by simp
  have c4: "isl (line_record python_3_11 (''a '' @ replicate 4301 CHR ''1'' @ ''\<newline>''))"
    unfolding n line_record_ones by simp
  have c5: "isl (line_record python_3_11 ''b2 9 x\<newline>'')" "isl (line_record python_3_11 ''b2\<newline>'')"
    "isl (line_record python_3_11 ''b2 x\<newline>'')" "isl (line_record python_3_11 [CHR 0xFF, CHR 0x0A])"
    by (simp_all add: line_record_def text_eval)
  from c1 c2 c3 c4 c5 show ?thesis by simp
qed

text \<open>
  Claim C8. The request that is answered with 416 ends the fetch loop, and
  \<^verbatim>\<open>get_remote_file\<close> returns the file name: when the answers before the \<open>m\<close>-th let the
  loop go on and the \<open>m\<close>-th is 416, a bound above \<open>m\<close> suffices, the cache file holds what
  the answers before the \<open>m\<close>-th wrote, and nothing of the \<open>m\<close>-th.
\<close>

theorem range_not_satisfiable_ends_fetch:
  assumes "files w (path_join cache_root (sha256_hexdigest url @ ''.gz'')) = None \<or> should_refresh"
    and "cache_root \<in> dirs w"
    and "\<forall>i<m. goes_on (answer host w url chunk_size i)"
    and "status_code (answer host w url chunk_size m) = range_not_satisfiable"
  shows "\<exists>w'. get_remote_file (Suc (m + fuel)) host sha256_hexdigest url chunk_size cache_root
                 should_refresh w = Some (Inr (sha256_hexdigest url @ ''.gz''), w')
          \<and> files w' (path_join cache_root (sha256_hexdigest url @ ''.gz''))
              = Some (concat (map (\<lambda>i. chunk_bytes (answer host w url chunk_size i)) [0..<m]))
          \<and> sent w' = sent w @ range_requests url chunk_size (Suc m)"
  using fetch_stops [where H = sha256_hexdigest and url = url and fuel = fuel, OF assms]
  by (simp add: files_loop_state sent_loop_state written_def)

theorem range_not_satisfiable_ends_fetch_witness:
  "goes_on (answer example_host example_world ''http://h/f'' 1024 0)
   \<and> goes_on (answer example_host example_world ''http://h/f'' 1024 1)
   \<and> status_code (answer example_host example_world ''http://h/f'' 1024 2) = range_not_satisfiable
   \<and> (\<exists>w'. get_remote_file 3 example_host example_digest ''http://h/f'' 1024 ''/cache'' False
              example_world = Some (Inr ''d-httphf.gz'', w')
         \<and> files w' ''/cache/d-httphf.gz'' = Some ''a 5\<newline>b 9\<newline>b2 9\<newline>c 1\<newline>''
         \<and> sent w' = [(''http://h/f'', [(''Range'', ''bytes=0-1024'')]),
                      (''http://h/f'', [(''Range'', ''bytes=1025-2049'')]),
                      (''http://h/f'', [(''Range'', ''bytes=2050-3074'')])])"
  using range_not_satisfiable_ends_fetch [where sha256_hexdigest = example_digest
      and url = "''http://h/f''" and fuel = 0, OF example_miss example_dir example_go example_stop]
    example_go example_stop
  by (simp add: example_eval All_less_Suc)

text \<open>
  Claim C9. With \<^verbatim>\<open>--no-cache\<close>, when the fetch (or the cache hit) has returned the
  file name: if the selection raises, or if printing raises because the standard output
  is closed, \<^verbatim>\<open>get\<close> raises that exception and the world is the one after the fetch,
  with the cache file in place; otherwise \<^verbatim>\<open>get\<close> prints the ids and then removes the
  cache file. So the cache file is gone after \<^verbatim>\<open>get\<close> only when \<^verbatim>\<open>get\<close> has ended well.
\<close>

theorem no_cache_deletes_after_emission:
  assumes "get_remote_file fuel host sha256_hexdigest url chunk_size cache_root refresh_cache w
           = Some (Inr file_name, w1)"
  shows "\<exists>cached. files w1 (path_join cache_root file_name) = Some cached
     \<and> (\<forall>e. process_file py cached n = Inl e \<longrightarrow>
           get py fuel host sha256_hexdigest True refresh_cache chunk_size url n cache_root w
           = Some (Inl e, w1))
     \<and> (\<forall>n_largest. process_file py cached n = Inr n_largest \<and> stdout_closed w1 \<and> n_largest \<noteq> [] \<longrightarrow>
           get py fuel host sha256_hexdigest True refresh_cache chunk_size url n cache_root w
           = Some (Inl BrokenPipeError, w1))
     \<and> (\<forall>n_largest. process_file py cached n = Inr n_largest \<and> \<not> (stdout_closed w1 \<and> n_largest \<noteq> []) \<longrightarrow>
           get py fuel host sha256_hexdigest True refresh_cache chunk_size url n cache_root w
           = Some (Inr (), w1\<lparr>stdout := stdout w1 @ map fst n_largest,
                               files := (files w1)(path_join cache_root file_name := None)\<rparr>))
     \<and> (\<forall>r w'. get py fuel host sha256_hexdigest True refresh_cache chunk_size url n cache_root w
                 = Some (r, w') \<and> files w' (path_join cache_root file_name) = None \<longrightarrow>
           r = Inr ())"
proof -
  from get_remote_file_frame [OF assms]
  obtain bs where f: "files w1 (path_join cache_root file_name) = Some bs" by auto
  from get_after_fetch [OF assms f, where no_cache = True and n = n] f
  have "files w1 (path_join cache_root file_name) = Some bs
     \<and> (\<forall>e. process_file py bs n = Inl e \<longrightarrow>
           get py fuel host sha256_hexdigest True refresh_cache chunk_size url n cache_root w
           = Some (Inl e, w1))
     \<and> (\<forall>n_largest. process_file py bs n = Inr n_largest \<and> stdout_closed w1 \<and> n_largest \<noteq> [] \<longrightarrow>
           get py fuel host sha256_hexdigest True refresh_cache chunk_size url n cache_root w
           = Some (Inl BrokenPipeError, w1))
     \<and> (\<forall>n_largest. process_file py bs n = Inr n_largest \<and> \<not> (stdout_closed w1 \<and> n_largest \<noteq> []) \<longrightarrow>
           get py fuel host sha256_hexdigest True refresh_cache chunk_size url n cache_root w
           = Some (Inr (), w1\<lparr>stdout := stdout w1 @ map fst n_largest,
                               files := (files w1)(path_join cache_root file_name := None)\<rparr>))
     \<and> (\<forall>r w'. get py fuel host sha256_hexdigest True refresh_cache chunk_size url n cache_root w
                 = Some (r, w') \<and> files w' (path_join cache_root file_name) = None \<longrightarrow>
           r = Inr ())"
    by (cases "process_file py bs n") (auto split: if_splits)
  then show ?thesis by blast
qed

theorem no_cache_deletes_after_emission_witness:
  "get_remote_file 0 (scripted_host []) example_digest ''http://h/f'' 1024 ''/cache'' False
        example_bad_cache = Some (Inr ''d-httphf.gz'', example_bad_cache)
   \<and> get python_3_11 0 (scripted_host []) example_digest True False 1024 ''http://h/f'' 1 ''/cache''
        example_bad_cache = Some (Inl (ValueError_int (ascii ''x'')), example_bad_cache)
   \<and> files example_bad_cache ''/cache/d-httphf.gz'' = Some ''a x\<newline>''
   \<and> get_remote_file 3 example_host example_digest ''http://h/f'' 1024 ''/cache'' False
        (example_world\<lparr>stdout_closed := True\<rparr>)
        = Some (Inr ''d-httphf.gz'', example_fetched\<lparr>stdout_closed := True\<rparr>)
   \<and> get python_3_11 3 example_host example_digest True False 1024 ''http://h/f'' 2 ''/cache''
        (example_world\<lparr>stdout_closed := True\<rparr>)
        = Some (Inl BrokenPipeError, example_fetched\<lparr>stdout_closed := True\<rparr>)
   \<and> files (example_fetched\<lparr>stdout_closed := True\<rparr>) ''/cache/d-httphf.gz''
        = Some ''a 5\<newline>b 9\<newline>b2 9\<newline>c 1\<newline>''
   \<and> get_remote_file 3 example_host example_digest ''http://h/f'' 1024 ''/cache'' False
        example_world = Some (Inr ''d-httphf.gz'', example_fetched)
   \<and> get python_3_11 3 example_host example_digest True False 1024 ''http://h/f'' 2 ''/cache'' example_world
        = Some (Inr (), example_fetched\<lparr>stdout := [ascii ''b'', ascii ''b2''],
                  files := (files example_fetched)(''/cache/d-httphf.gz'' := None)\<rparr>)"
proof -
  have fb: "files example_bad_cache ''/cache/d-httphf.gz'' = Some ''a x\<newline>''"
    by (simp add: example_bad_cache_def)
  then have "files example_bad_cache (path_join ''/cache'' (example_digest ''http://h/f'' @ ''.gz''))
      = Some ''a x\<newline>''"
    by (simp add: example_name example_cache_file)
  from get_remote_file_hit [where H = example_digest and url = "''http://h/f''" and fuel = 0
      and host = "scripted_host []" and cs = 1024, OF this]
  have hit: "get_remote_file 0 (scripted_host []) example_digest ''http://h/f'' 1024 ''/cache'' False
        example_bad_cache = Some (Inr ''d-httphf.gz'', example_bad_cache)"
    by (simp add: example_name)
  from no_cache_deletes_after_emission [OF hit, where n = 1 and py = python_3_11]
  obtain c1 where "files example_bad_cache (path_join ''/cache'' ''d-httphf.gz'') = Some c1"
    and e1: "\<forall>e. process_file python_3_11 c1 1 = Inl e \<longrightarrow>
           get python_3_11 0 (scripted_host []) example_digest True False 1024 ''http://h/f'' 1 ''/cache''
             example_bad_cache = Some (Inl e, example_bad_cache)"
    by blast
  with fb have "c1 = ''a x\<newline>''" by (simp add: example_cache_file)
  with e1 example_bad_line
  have bad: "get python_3_11 0 (scripted_host []) example_digest True False 1024 ''http://h/f'' 1 ''/cache''
        example_bad_cache = Some (Inl (ValueError_int (ascii ''x'')), example_bad_cache)"
    by blast
  have fc: "files (example_fetched\<lparr>stdout_closed := True\<rparr>) ''/cache/d-httphf.gz''
        = Some ''a 5\<newline>b 9\<newline>b2 9\<newline>c 1\<newline>''"
    by (simp add: files_example_fetched)
  have ne: "[(ascii ''b'', 9::int), (ascii ''b2'', 9)] \<noteq> []" by simp
  from no_cache_deletes_after_emission [OF example_fetch_closed, where n = 2 and py = python_3_11]
  obtain c2 where "files (example_fetched\<lparr>stdout_closed := True\<rparr>)
        (path_join ''/cache'' ''d-httphf.gz'') = Some c2"
    and e2: "\<forall>n_largest. process_file python_3_11 c2 2 = Inr n_largest
           \<and> stdout_closed (example_fetched\<lparr>stdout_closed := True\<rparr>) \<and> n_largest \<noteq> [] \<longrightarrow>
           get python_3_11 (Suc (Suc (Suc 0))) example_host example_digest True False 1024 ''http://h/f'' 2
             ''/cache'' (example_world\<lparr>stdout_closed := True\<rparr>)
           = Some (Inl BrokenPipeError, example_fetched\<lparr>stdout_closed := True\<rparr>)"
    by blast
  with fc have "c2 = ''a 5\<newline>b 9\<newline>b2 9\<newline>c 1\<newline>''" by (simp add: example_cache_file)
  moreover have "stdout_closed (example_fetched\<lparr>stdout_closed := True\<rparr>)" by simp
  ultimately
  have closed: "get python_3_11 (Suc (Suc (Suc 0))) example_host example_digest True False 1024 ''http://h/f'' 2
        ''/cache'' (example_world\<lparr>stdout_closed := True\<rparr>)
        = Some (Inl BrokenPipeError, example_fetched\<lparr>stdout_closed := True\<rparr>)"
    using e2 example_top2 ne by blast
  have op: "\<not> (stdout_closed example_fetched \<and> [(ascii ''b'', 9::int), (ascii ''b2'', 9)] \<noteq> [])"
    by (simp add: example_fetched_def)
  from no_cache_deletes_after_emission [OF example_fetch, where n = 2 and py = python_3_11]
  obtain c3 where "files example_fetched (path_join ''/cache'' ''d-httphf.gz'') = Some c3"
    and e3: "\<forall>n_largest. process_file python_3_11 c3 2 = Inr n_largest
           \<and> \<not> (stdout_closed example_fetched \<and> n_largest \<noteq> []) \<longrightarrow>
           get python_3_11 (Suc (Suc (Suc 0))) example_host example_digest True False 1024 ''http://h/f'' 2
             ''/cache'' example_world
           = Some (Inr (), example_fetched\<lparr>stdout := stdout example_fetched @ map fst n_largest,
                     files := (files example_fetched)(path_join ''/cache'' ''d-httphf.gz'' := None)\<rparr>)"
    by blast
  then have "c3 = ''a 5\<newline>b 9\<newline>b2 9\<newline>c 1\<newline>''"
    by (simp add: example_cache_file files_example_fetched)
  with e3 example_top2 op
  have "get python_3_11 (Suc (Suc (Suc 0))) example_host example_digest True False 1024 ''http://h/f'' 2
             ''/cache'' example_world
           = Some (Inr (), example_fetched\<lparr>stdout := stdout example_fetched
                       @ map fst [(ascii ''b'', 9::int), (ascii ''b2'', 9)],
                     files := (files example_fetched)(path_join ''/cache'' ''d-httphf.gz'' := None)\<rparr>)"
    by blast
  moreover have "stdout example_fetched = []" by (simp add: example_fetched_def)
  ultimately
  have good: "get python_3_11 (Suc (Suc (Suc 0))) example_host example_digest True False 1024 ''http://h/f'' 2
        ''/cache'' example_world
        = Some (Inr (), example_fetched\<lparr>stdout := [ascii ''b'', ascii ''b2''],
                  files := (files example_fetched)(''/cache/d-httphf.gz'' := None)\<rparr>)"
    by (simp add: example_cache_file)
  from hit bad fb good closed fc example_fetch example_fetch_closed show ?thesis
    by (simp add: numeral_3_eq_3)
qed

text \<open>
  Claim C10, as stated: after a first range request answered with 416 has left an empty
  cache entry, every later invocation without refresh is a cache hit. An invocation with
  \<^verbatim>\<open>--no-cache\<close> is such a hit and then removes the entry (lines 67 and 68), so the
  invocation after it finds no entry and sends a request.
\<close>

theorem later_invocation_fetches_again_counterexample:
  "get_remote_file 1 (scripted_host []) example_digest ''http://h/f'' 1024 ''/cache'' False
     example_world = Some (Inr ''d-httphf.gz'', example_empty_entry)
   \<and> files example_empty_entry ''/cache/d-httphf.gz'' = Some []
   \<and> get python_3_11 1 (scripted_host []) example_digest True False 1024 ''http://h/f'' 5 ''/cache''
        example_empty_entry
      = Some (Inr (), example_empty_entry\<lparr>files := Map.empty\<rparr>)
   \<and> get python_3_11 1 (scripted_host []) example_digest False False 1024 ''http://h/f'' 5 ''/cache''
        (example_empty_entry\<lparr>files := Map.empty\<rparr>)
      = Some (Inr (),
          example_empty_entry\<lparr>sent := [(''http://h/f'', [(''Range'', ''bytes=0-1024'')]),
                                       (''http://h/f'', [(''Range'', ''bytes=0-1024'')])]\<rparr>)"
proof -
  have f: "files example_empty_entry (path_join ''/cache'' ''d-httphf.gz'') = Some []"
    by (simp add: example_cache_file example_empty_entry_def)
  then have f': "files example_empty_entry (path_join ''/cache'' (example_digest ''http://h/f'' @ ''.gz''))
      = Some []"
    by (simp add: example_name)
  have e: "(files example_empty_entry)(''/cache/d-httphf.gz'' := None) = Map.empty"
    by (simp add: example_empty_entry_def)
  have hit: "get_remote_file (Suc 0) (scripted_host []) example_digest ''http://h/f'' 1024 ''/cache''
      False example_empty_entry = Some (Inr ''d-httphf.gz'', example_empty_entry)"
    using get_remote_file_hit [where H = example_digest and url = "''http://h/f''", OF f']
    by (simp add: example_name)
  have s: "stdout example_empty_entry = []" "\<not> stdout_closed example_empty_entry"
    by (simp_all add: example_empty_entry_def)
  have g2: "get python_3_11 (Suc 0) (scripted_host []) example_digest True False 1024 ''http://h/f'' 5
      ''/cache'' example_empty_entry = Some (Inr (), example_empty_entry\<lparr>files := Map.empty\<rparr>)"
    using get_after_fetch [OF hit f, where no_cache = True and n = 5 and py = python_3_11] s
    by (simp add: process_file_empty example_cache_file e)
  have f3: "files (example_empty_entry\<lparr>sent := [(''http://h/f'', [(''Range'', ''bytes=0-1024'')]),
                                    (''http://h/f'', [(''Range'', ''bytes=0-1024'')])]\<rparr>)
       (path_join ''/cache'' ''d-httphf.gz'') = Some []"
    using f by simp
  have g3: "get python_3_11 (Suc 0) (scripted_host []) example_digest False False 1024 ''http://h/f'' 5
      ''/cache'' (example_empty_entry\<lparr>files := Map.empty\<rparr>)
      = Some (Inr (),
          example_empty_entry\<lparr>sent := [(''http://h/f'', [(''Range'', ''bytes=0-1024'')]),
                                       (''http://h/f'', [(''Range'', ''bytes=0-1024'')])]\<rparr>)"
    using get_after_fetch [OF example_refetch [unfolded e] f3, where no_cache = False and n = 5
        and py = python_3_11] s
    by (simp add: process_file_empty)
  from example_empty_fetch g2 g3 f show ?thesis
    by (simp add: example_cache_file)
qed

text \<open>
  Claim C10, amended: when the first range request is answered with 416,
  \<^verbatim>\<open>get_remote_file\<close> returns the file name and leaves an empty file at the path of the
  cache entry, having sent that one request; and on every world in which that file is
  empty, \<^verbatim>\<open>get\<close> without refresh succeeds, sends no request and prints nothing. Without
  \<^verbatim>\<open>--no-cache\<close> it changes nothing, so that the next invocation is such a hit again;
  with \<^verbatim>\<open>--no-cache\<close> it removes the entry and changes nothing else.
\<close>

theorem first_request_unsatisfiable_caches_empty_file:
  assumes "files w (path_join cache_root (sha256_hexdigest url @ ''.gz'')) = None \<or> should_refresh"
    and "cache_root \<in> dirs w"
    and "status_code (answer host w url chunk_size 0) = range_not_satisfiable"
  shows "\<exists>w1. get_remote_file (Suc fuel) host sha256_hexdigest url chunk_size cache_root
                 should_refresh w = Some (Inr (sha256_hexdigest url @ ''.gz''), w1)
          \<and> files w1 (path_join cache_root (sha256_hexdigest url @ ''.gz'')) = Some []
          \<and> sent w1 = sent w @ [(url, make_range_header FILE_START chunk_size)]
          \<and> get py fuel' host' sha256_hexdigest no_cache' False chunk_size' url n cache_root w1
              = Some (Inr (),
                  if no_cache'
                  then w1\<lparr>files := (files w1)(path_join cache_root (sha256_hexdigest url @ ''.gz'') := None)\<rparr>
                  else w1)
          \<and> (\<forall>w2. files w2 (path_join cache_root (sha256_hexdigest url @ ''.gz'')) = Some [] \<longrightarrow>
                get py fuel' host' sha256_hexdigest no_cache' False chunk_size' url n cache_root w2
                = Some (Inr (),
                    if no_cache'
                    then w2\<lparr>files := (files w2)(path_join cache_root (sha256_hexdigest url @ ''.gz'') := None)\<rparr>
                    else w2))"
proof -
  let ?name = "sha256_hexdigest url @ ''.gz''"
  let ?cf = "path_join cache_root ?name"
  let ?w1 = "loop_state host w url chunk_size ?cf 0"
  have later: "get py fuel' host' sha256_hexdigest no_cache' False chunk_size' url n cache_root w2
                = Some (Inr (), if no_cache' then w2\<lparr>files := (files w2)(?cf := None)\<rparr> else w2)"
    if "files w2 ?cf = Some []" for w2
    using get_after_fetch [OF get_remote_file_hit [where H = sha256_hexdigest and url = url
          and fuel = fuel' and host = host' and cs = chunk_size', OF that] that,
        where no_cache = no_cache' and n = n and py = py]
    by (simp add: process_file_empty)
  have "\<forall>i<0. goes_on (answer host w url chunk_size i)" by simp
  from fetch_stops [where H = sha256_hexdigest and url = url and fuel = fuel and m = 0,
      OF assms(1,2) this assms(3)]
  have run: "get_remote_file (Suc fuel) host sha256_hexdigest url chunk_size cache_root
               should_refresh w = Some (Inr ?name, ?w1)"
    by simp
  have f: "files ?w1 ?cf = Some []" by (simp add: files_loop_state written_def)
  have s: "sent ?w1 = sent w @ [(url, make_range_header FILE_START chunk_size)]"
    by (simp add: sent_loop_state range_requests_def offset_def)
  from run f s later [OF f] later show ?thesis
    by (intro exI [of _ ?w1]) simp
qed

theorem first_request_unsatisfiable_caches_empty_file_witness:
  "status_code (answer (scripted_host []) example_world ''http://h/f'' 1024 0) = range_not_satisfiable
   \<and> (\<exists>w1. get_remote_file 1 (scripted_host []) example_digest ''http://h/f'' 1024 ''/cache'' False
              example_world = Some (Inr ''d-httphf.gz'', w1)
         \<and> files w1 ''/cache/d-httphf.gz'' = Some []
         \<and> sent w1 = [(''http://h/f'', [(''Range'', ''bytes=0-1024'')])]
         \<and> get python_3_11 0 example_host example_digest False False 256000 ''http://h/f'' 5 ''/cache'' w1
             = Some (Inr (), w1)
         \<and> get python_3_11 0 example_host example_digest True False 256000 ''http://h/f'' 5 ''/cache'' w1
             = Some (Inr (), w1\<lparr>files := (files w1)(''/cache/d-httphf.gz'' := None)\<rparr>))"
proof -
  have st: "status_code (answer (scripted_host []) example_world ''http://h/f'' 1024 0)
      = range_not_satisfiable"
    by (simp add: answer_scripted_0 status_reply range_not_satisfiable_def)
  have h: "make_range_header FILE_START 1024 = [(''Range'', ''bytes=0-1024'')]"
    by (simp add: make_range_header_def FILE_START_def RANGE_HEADER_def str_int_examples)
  from first_request_unsatisfiable_caches_empty_file [where sha256_hexdigest = example_digest
      and url = "''http://h/f''" and fuel = 0 and fuel' = 0 and host' = example_host
      and chunk_size' = 256000 and n = 5 and py = python_3_11 and no_cache' = False,
      OF example_miss example_dir st]
  obtain w1 where a: "get_remote_file (Suc 0) (scripted_host []) example_digest ''http://h/f'' 1024
        ''/cache'' False example_world = Some (Inr (example_digest ''http://h/f'' @ ''.gz''), w1)"
      "files w1 (path_join ''/cache'' (example_digest ''http://h/f'' @ ''.gz'')) = Some []"
      "sent w1 = sent example_world @ [(''http://h/f'', make_range_header FILE_START 1024)]"
      "get python_3_11 0 example_host example_digest False False 256000 ''http://h/f'' 5 ''/cache'' w1
         = Some (Inr (), w1)"
    by (elim exE conjE) simp
  from first_request_unsatisfiable_caches_empty_file [where sha256_hexdigest = example_digest
      and url = "''http://h/f''" and fuel = 0 and fuel' = 0 and host' = example_host
      and chunk_size' = 256000 and n = 5 and py = python_3_11 and no_cache' = True,
      OF example_miss example_dir st]
  obtain w1' where b: "get_remote_file (Suc 0) (scripted_host []) example_digest ''http://h/f'' 1024
        ''/cache'' False example_world = Some (Inr (example_digest ''http://h/f'' @ ''.gz''), w1')"
      "get python_3_11 0 example_host example_digest True False 256000 ''http://h/f'' 5 ''/cache'' w1'
         = Some (Inr (), w1'\<lparr>files := (files w1')(path_join ''/cache''
               (example_digest ''http://h/f'' @ ''.gz'') := None)\<rparr>)"
    by (elim exE conjE) simp
  from a(1) b(1) have "w1' = w1" by simp
  with a b(2) st show ?thesis
    by (intro conjI exI [of _ w1])
       (simp_all add: example_name example_cache_file sent_example_world h)
qed


end
